theory Spec2Isabelle
  imports Complex_Main "HOL-Library.Sublist" "HOL-Library.AList"
begin

section \<open>Python strings\<close>

text \<open>
  A Python \<open>str\<close> is a sequence of code points. The model reads a \<^typ>\<open>char\<close> as one
  code point below 256 (ASCII and Latin-1), so \<^const>\<open>length\<close> counts what Python's
  \<open>len\<close> counts on such text. The helpers below are the \<open>str\<close> methods the
  repository calls, restricted to these code points.
\<close>

definition is_space :: "char \<Rightarrow> bool" where
  \<comment> \<open>\<open>str.isspace\<close> on one code point: tab, LF, VT, FF, CR, FS, GS, RS, US, space,
      NEL and the no-break space.\<close>
  "is_space c = (of_char c \<in> set [9, 10, 11, 12, 13, 28, 29, 30, 31, 32, 133, 160 :: nat])"

definition lower_char :: "char \<Rightarrow> char" where
  \<comment> \<open>\<open>str.lower\<close> on one code point: A-Z, and the Latin-1 capitals but the
      multiplication sign.\<close>
  "lower_char c =
     (let n = (of_char c :: nat)
      in if (65 \<le> n \<and> n \<le> 90) \<or> (192 \<le> n \<and> n \<le> 222 \<and> n \<noteq> 215)
         then char_of (n + 32) else c)"

definition lower :: "string \<Rightarrow> string" where
  "lower s = map lower_char s"

definition strip :: "string \<Rightarrow> string" where
  \<comment> \<open>\<open>str.strip()\<close>: whitespace removed at both ends.\<close>
  "strip s = rev (dropWhile is_space (rev (dropWhile is_space s)))"

fun str_in :: "string \<Rightarrow> string \<Rightarrow> bool" where
  \<comment> \<open>Python's \<open>p in s\<close> on strings: \<open>p\<close> occurs in \<open>s\<close> as a contiguous block.\<close>
  "str_in p [] = (p = [])"
| "str_in p (c # cs) = (prefix p (c # cs) \<or> str_in p cs)"

fun split_acc :: "string \<Rightarrow> string \<Rightarrow> string list" where
  "split_acc cur [] = (if cur = [] then [] else [rev cur])"
| "split_acc cur (c # cs) =
     (if is_space c
      then (if cur = [] then split_acc [] cs else rev cur # split_acc [] cs)
      else split_acc (c # cur) cs)"

definition split :: "string \<Rightarrow> string list" where
  \<comment> \<open>\<open>str.split()\<close> without arguments: the maximal runs of non-whitespace.\<close>
  "split s = split_acc [] s"

fun join :: "string \<Rightarrow> string list \<Rightarrow> string" where
  \<comment> \<open>\<open>sep.join(xs)\<close>\<close>
  "join sep [] = []"
| "join sep [x] = x"
| "join sep (x # y # ys) = x @ sep @ join sep (y # ys)"

section \<open>Data model (models.py)\<close>

datatype PriorityLevel = CRITICAL | HIGH | MEDIUM | LOW

record TeamMember =
  name :: string
  role :: string
  skills :: "string list"

definition TeamMember_init :: "string \<Rightarrow> string \<Rightarrow> string list \<Rightarrow> TeamMember" where
  \<comment> \<open>The dataclass constructor with \<open>__post_init__\<close>: skills are lowercased and
      trimmed, blank ones dropped.\<close>
  "TeamMember_init n r sk =
     \<lparr>name = n, role = r, skills = map (\<lambda>s. strip (lower s)) (filter (\<lambda>s. strip s \<noteq> []) sk)\<rparr>"

definition TeamMember_from_dict ::
  "string option \<Rightarrow> string option \<Rightarrow> string list option \<Rightarrow> TeamMember" where
  \<comment> \<open>\<open>TeamMember.from_dict\<close>: an absent key (\<open>None\<close> here) reads as \<open>""\<close>, or
      \<open>[]\<close> for the skills.\<close>
  "TeamMember_from_dict n r sk =
     TeamMember_init (case n of None \<Rightarrow> [] | Some x \<Rightarrow> x)
                     (case r of None \<Rightarrow> [] | Some x \<Rightarrow> x)
                     (case sk of None \<Rightarrow> [] | Some x \<Rightarrow> x)"

record ValidationResult =
  is_valid :: bool
  error_message :: "string option"
  file_format :: "string option"
  missing_fields :: "string list"

record TaskOutput =
  task_number :: int
  description_out :: string
  assigned_to :: "string option"
  deadline_out :: "string option"
  priority_out :: string
  dependencies_out :: "string option"
  reasoning_out :: "string option"

text \<open>
  The fields \<open>description\<close>, \<open>deadline\<close>, \<open>priority\<close>, \<open>dependencies\<close> and \<open>reasoning\<close>
  of \<open>TaskOutput\<close> carry the suffix \<open>_out\<close>: the plain names are fields of other records
  or parameters of the functions below.
\<close>

record ExtractedTask =
  description :: string
  raw_text :: string
  mentioned_person :: "string option"
  deadline_phrase :: "string option"
  priority_indicators :: "string list"
  dependency_phrases :: "string list"

text \<open>
  A \<open>datetime.date\<close> is modelled by its proleptic Gregorian ordinal (\<open>date.toordinal()\<close>):
  day 1 is 0001-01-01, and the difference of two dates in days is the difference of their
  ordinals.
\<close>

type_synonym date = int

section \<open>Team member validation (team\_store.py)\<close>

definition validate_member :: "TeamMember \<Rightarrow> ValidationResult" where
  "validate_member member =
     (let missing0 = [];
          missing1 = (if name member = [] \<or> strip (name member) = []
                      then missing0 @ [''name''] else missing0);
          missing2 = (if role member = [] \<or> strip (role member) = []
                      then missing1 @ [''role''] else missing1);
          missing3 = (if skills member = [] then missing2 @ [''skills''] else missing2)
      in if missing3 \<noteq> []
         then \<lparr>is_valid = False,
               error_message = Some (''Missing required fields: '' @ join '', '' missing3),
               file_format = None,
               missing_fields = missing3\<rparr>
         else \<lparr>is_valid = True, error_message = None, file_format = None,
               missing_fields = []\<rparr>)"

section \<open>Priority classification (priority\_classifier.py)\<close>

definition CRITICAL_INDICATORS :: "string list" where
  "CRITICAL_INDICATORS =
     [''critical'', ''urgent'', ''asap'', ''immediately'', ''emergency'',
      ''right away'', ''right now'', ''drop everything'']"

definition HIGH_INDICATORS :: "string list" where
  "HIGH_INDICATORS =
     [''high priority'', ''important'', ''blocking'', ''blocker'',
      ''affecting users'', ''affecting the user'', ''user experience'',
      ''affecting the user experience'', ''it'' @ [CHR 0x27] @ ''s affecting'',
      ''before release'', ''production issue'',
      ''customer impact'', ''deadline'', ''must have'',
      ''really slow'', ''is slow'']"

definition LOW_INDICATORS :: "string list" where
  "LOW_INDICATORS =
     [''when possible'', ''nice to have'', ''low priority'',
      ''backlog'', ''eventually'', ''no rush'',
      ''whenever'', ''if time permits'']"

definition has_indicators :: "string list \<Rightarrow> string \<Rightarrow> string list \<Rightarrow> bool" where
  \<comment> \<open>The common body of \<open>_has_critical_indicators\<close>, \<open>_has_high_indicators\<close> and
      \<open>_has_low_indicators\<close>: first the extracted indicators against the table (both
      lowercased), then the table's phrases inside the text.\<close>
  "has_indicators table text indicators =
     (list_ex (\<lambda>ind. lower ind \<in> set (map lower table)) indicators
      \<or> list_ex (\<lambda>indicator. str_in indicator text) table)"

definition has_critical_indicators :: "string \<Rightarrow> string list \<Rightarrow> bool" where
  "has_critical_indicators text indicators = has_indicators CRITICAL_INDICATORS text indicators"

definition has_high_indicators :: "string \<Rightarrow> string list \<Rightarrow> bool" where
  "has_high_indicators text indicators = has_indicators HIGH_INDICATORS text indicators"

definition has_low_indicators :: "string \<Rightarrow> string list \<Rightarrow> bool" where
  "has_low_indicators text indicators = has_indicators LOW_INDICATORS text indicators"

definition check_deadline_urgency ::
  "date \<Rightarrow> date option \<Rightarrow> date option \<Rightarrow> PriorityLevel option" where
  \<comment> \<open>\<open>today\<close> stands for \<open>date.today()\<close>, read when no reference date is given.\<close>
  "check_deadline_urgency today deadline reference_date =
     (case deadline of
        None \<Rightarrow> None
      | Some dl \<Rightarrow>
          (let ref_date = (case reference_date of None \<Rightarrow> today | Some r \<Rightarrow> r);
               days_until = dl - ref_date
           in if days_until \<le> 1 then Some CRITICAL
              else if days_until \<le> 2 then Some HIGH
              else None))"

definition classify ::
  "date \<Rightarrow> ExtractedTask \<Rightarrow> date option \<Rightarrow> date option \<Rightarrow> PriorityLevel" where
  "classify today task deadline reference_date =
     (let text_lower = lower (raw_text task);
          indicators = priority_indicators task
      in if str_in ''can wait'' text_lower then MEDIUM
         else if has_critical_indicators text_lower indicators then CRITICAL
         else (let deadline_priority = check_deadline_urgency today deadline reference_date
               in if deadline_priority = Some CRITICAL then CRITICAL
                  else if has_high_indicators text_lower indicators then HIGH
                  else (case deadline_priority of
                          Some p \<Rightarrow> p
                        | None \<Rightarrow>
                            if has_low_indicators text_lower indicators then LOW
                            else MEDIUM)))"

section \<open>Team member store (team\_store.py)\<close>

text \<open>
  The store's \<open>_members\<close> is a dictionary from the lowercased, trimmed name to the member.
  A Python dictionary iterates in insertion order, so it is modelled as an association list
  in that order.
\<close>

type_synonym TeamMemberStore = "(string \<times> TeamMember) list"

definition add_member :: "TeamMember \<Rightarrow> TeamMemberStore \<Rightarrow> ValidationResult \<times> TeamMemberStore" where
  "add_member member members =
     (let validation = validate_member member
      in if \<not> is_valid validation then (validation, members)
         else (let name_key = strip (lower (name member))
               in if name_key \<in> fst ` set members
                  then (\<lparr>is_valid = False,
                         error_message = Some (''Duplicate team member: '' @ name member),
                         file_format = None, missing_fields = []\<rparr>, members)
                  else (\<lparr>is_valid = True, error_message = None, file_format = None,
                         missing_fields = []\<rparr>,
                        members @ [(name_key, member)])))"

definition find_by_name :: "TeamMemberStore \<Rightarrow> string \<Rightarrow> TeamMember option" where
  "find_by_name members nm =
     (let search_name = strip (lower nm)
      in case map_of members search_name of
           Some member \<Rightarrow> Some member
         | None \<Rightarrow>
             (case find (\<lambda>(key, member). str_in search_name key \<or> str_in key search_name) members of
                Some (key, member) \<Rightarrow> Some member
              | None \<Rightarrow> None))"

definition get_all_members :: "TeamMemberStore \<Rightarrow> TeamMember list" where
  "get_all_members members = map snd members"

definition get_all_names :: "TeamMemberStore \<Rightarrow> string list" where
  "get_all_names members = map (\<lambda>(key, m). name m) members"

section \<open>Assignment engine (assignment\_engine.py)\<close>

text \<open>
  Scores are Python floats built from the constants 0.5, 0.3, 0.4, 1.5 and 2.0 by addition,
  compared with \<open>>\<close> and capped by \<open>min(score, 1.0)\<close>. The model computes them as
  rationals: rounding of the sums is not modelled, and nothing proved below depends on the
  exact value of a sum.
\<close>

record AssignmentResult =
  team_member :: "TeamMember option"
  reasoning :: string
  confidence :: rat

definition SKILL_KEYWORDS :: "(string \<times> string list) list" where
  "SKILL_KEYWORDS =
     [(''frontend'',
        [''ui'', ''react'', ''javascript'', ''css'', ''html'', ''login bug'', ''button'',
         ''screen'', ''page'', ''form'', ''component'', ''interface'', ''vue'', ''angular'',
         ''frontend'', ''front-end'', ''client'', ''browser'', ''responsive'', ''fix login'']),
      (''backend'',
        [''api'', ''database'', ''server'', ''performance'', ''optimization'', ''backend'',
         ''back-end'', ''endpoint'', ''rest'', ''graphql'', ''microservice'', ''cache'',
         ''query'', ''sql'', ''nosql'', ''mongodb'', ''postgresql'', ''mysql'',
         ''api documentation'', ''documentation'', ''optimize database'']),
      (''design'',
        [''design'', ''figma'', ''onboarding'', ''ux'', ''ui/ux'', ''screens'', ''mockup'',
         ''wireframe'', ''prototype'', ''user flow'', ''sketch'', ''adobe'', ''visual'',
         ''layout'', ''typography'', ''color'', ''branding'']),
      (''qa'',
        [''test'', ''testing'', ''quality'', ''automation'', ''unit test'', ''qa'',
         ''write test'', ''write unit test'', ''regression'', ''integration test'',
         ''e2e'', ''selenium'', ''cypress'', ''jest'', ''pytest'', ''coverage'',
         ''payment module'', ''test for'']),
      (''devops'',
        [''deploy'', ''deployment'', ''ci'', ''cd'', ''pipeline'', ''docker'', ''kubernetes'',
         ''aws'', ''azure'', ''gcp'', ''infrastructure'', ''monitoring'', ''logging'']),
      (''documentation'',
        [''documentation'', ''docs'', ''readme'', ''api docs'', ''swagger'', ''openapi'',
         ''wiki'', ''guide'', ''tutorial'', ''comment''])]"

definition ROLE_DOMAINS :: "(string \<times> string list) list" where
  "ROLE_DOMAINS =
     [(''frontend'', [''frontend'', ''front-end'', ''ui developer'', ''react developer'']),
      (''backend'', [''backend'', ''back-end'', ''server'', ''api developer'']),
      (''design'', [''designer'', ''ui/ux'', ''ux'', ''ui designer'']),
      (''qa'', [''qa'', ''quality'', ''tester'', ''test engineer'']),
      (''devops'', [''devops'', ''sre'', ''infrastructure'', ''platform''])]"

definition dict_get :: "('k \<times> 'v list) list \<Rightarrow> 'k \<Rightarrow> 'v list" where
  \<comment> \<open>\<open>d.get(key, [])\<close>\<close>
  "dict_get d k = (case map_of d k of None \<Rightarrow> [] | Some v \<Rightarrow> v)"

definition keyword_to_domain :: "(string \<times> string) list" where
  \<comment> \<open>\<open>_build_keyword_index\<close>: a keyword listed under two domains keeps its first
      position and takes the later domain, as a dictionary assignment does.\<close>
  "keyword_to_domain =
     foldl (\<lambda>idx (domain, keywords).
              foldl (\<lambda>idx keyword. AList.update (lower keyword) domain idx) idx keywords)
           [] SKILL_KEYWORDS"

definition set_add :: "'a \<Rightarrow> 'a list \<Rightarrow> 'a list" where
  \<comment> \<open>\<open>s.add(x)\<close> on a Python set kept as a duplicate-free list in insertion order.\<close>
  "set_add x xs = (if x \<in> set xs then xs else xs @ [x])"

definition extract_domains :: "string \<Rightarrow> string list" where
  "extract_domains text =
     (let text_lower = lower text
      in foldl (\<lambda>domains (keyword, domain).
                  if str_in keyword text_lower then set_add domain domains else domains)
               [] keyword_to_domain)"

fun keyword_loop :: "string \<Rightarrow> string \<Rightarrow> string list \<Rightarrow> rat \<times> string list \<Rightarrow> rat \<times> string list" where
  \<comment> \<open>The inner \<open>for keyword in domain_keywords\<close> with its \<open>break\<close>.\<close>
  "keyword_loop skill skill_lower [] acc = acc"
| "keyword_loop skill skill_lower (keyword # rest) (score, matched_skills) =
     (if str_in keyword skill_lower \<or> str_in skill_lower keyword
      then (score + 3 / 10, matched_skills @ [skill])
      else keyword_loop skill skill_lower rest (score, matched_skills))"

fun domain_loop :: "string \<Rightarrow> string \<Rightarrow> string list \<Rightarrow> rat \<times> string list \<Rightarrow> rat \<times> string list" where
  \<comment> \<open>\<open>for domain in task_domains\<close>: a direct match adds 0.5 and leaves the loop; otherwise
      the domain's keywords are tried and the loop goes on with the next domain.\<close>
  "domain_loop skill skill_lower [] acc = acc"
| "domain_loop skill skill_lower (domain # rest) (score, matched_skills) =
     (if str_in domain skill_lower \<or> str_in skill_lower domain
      then (score + 1 / 2, matched_skills @ [skill])
      else domain_loop skill skill_lower rest
             (keyword_loop skill skill_lower (dict_get SKILL_KEYWORDS domain)
                (score, matched_skills)))"

definition calculate_skill_score ::
  "(string list \<Rightarrow> string list) \<Rightarrow> string list \<Rightarrow> TeamMember \<Rightarrow> rat \<times> string list" where
  \<comment> \<open>\<open>set_iter\<close> gives the order in which Python iterates over a set of strings, which
      the language leaves open (it depends on the process's string hashing).\<close>
  "calculate_skill_score set_iter task_domains member =
     (let (score, matched_skills) =
            foldl (\<lambda>acc skill. domain_loop skill (lower skill) (set_iter task_domains) acc)
                  (0, []) (skills member);
          role_lower = lower (role member);
          score' =
            foldl (\<lambda>sc domain.
                     if list_ex (\<lambda>keyword. str_in keyword role_lower) (dict_get ROLE_DOMAINS domain)
                     then sc + 2 / 5 else sc)
                  score (set_iter task_domains)
      in (score', matched_skills))"

definition generate_skill_reasoning ::
  "(string list \<Rightarrow> string list) \<Rightarrow> TeamMember \<Rightarrow> string list \<Rightarrow> string list \<Rightarrow> string" where
  "generate_skill_reasoning set_iter member matched_skills task_domains =
     (let parts0 = [];
          parts1 = (if matched_skills \<noteq> []
                    then parts0 @ [''Matched skills: '' @ join '', '' (set_iter (remdups matched_skills))]
                    else parts0);
          parts2 = (if task_domains \<noteq> []
                    then parts1 @ [''Task domains: '' @ join '', '' (set_iter task_domains)]
                    else parts1);
          parts3 = parts2 @ [''Role: '' @ role member]
      in join ''; '' parts3)"

definition primary_domain_of :: "string \<Rightarrow> string option" where
  \<comment> \<open>The \<open>if\<close>/\<open>elif\<close> chain of \<open>_match_by_skills\<close> that picks the primary domain.\<close>
  "primary_domain_of task_text =
     (if str_in ''unit test'' task_text \<or> str_in ''write test'' task_text \<or> str_in ''testing'' task_text
      then Some ''qa''
      else if str_in ''database'' task_text \<or> str_in ''api'' task_text \<or> str_in ''backend'' task_text
              \<or> str_in ''documentation'' task_text
      then Some ''backend''
      else if str_in ''design'' task_text \<or> str_in ''onboarding'' task_text \<or> str_in ''screen'' task_text
      then Some ''design''
      else if str_in ''login'' task_text \<or> str_in ''bug'' task_text \<or> str_in ''ui'' task_text
      then Some ''frontend''
      else None)"

definition role_boost :: "string option \<Rightarrow> string \<Rightarrow> rat" where
  \<comment> \<open>What \<open>_match_by_skills\<close> adds to a member's score when the role matches the primary
      domain.\<close>
  "role_boost primary_domain role_lower =
     (case primary_domain of
        None \<Rightarrow> 0
      | Some pd \<Rightarrow>
          if pd = ''qa'' \<and> str_in ''qa'' role_lower then 2
          else if pd = ''backend'' \<and> str_in ''backend'' role_lower then 3 / 2
          else if pd = ''design'' \<and> str_in ''design'' role_lower then 3 / 2
          else if pd = ''frontend'' \<and> str_in ''frontend'' role_lower then 3 / 2
          else 0)"

definition match_by_skills ::
  "(string list \<Rightarrow> string list) \<Rightarrow> ExtractedTask \<Rightarrow> TeamMemberStore \<Rightarrow> AssignmentResult option" where
  "match_by_skills set_iter task team_store =
     (let task_text = lower (description task @ '' '' @ raw_text task);
          task_domains = extract_domains task_text
      in if task_domains = [] then None
         else
           (let primary_domain = primary_domain_of task_text;
                (best_member, best_score, matched_skills) =
                  foldl (\<lambda>(best_member, best_score, matched_skills) member.
                           (let (score0, skills) = calculate_skill_score set_iter task_domains member;
                                score = score0 + role_boost primary_domain (lower (role member))
                            in if score > best_score then (Some member, score, skills)
                               else (best_member, best_score, matched_skills)))
                        (None, 0, []) (get_all_members team_store)
            in case best_member of
                 Some bm \<Rightarrow>
                   if best_score > 0
                   then Some \<lparr>team_member = Some bm,
                              reasoning = generate_skill_reasoning set_iter bm matched_skills task_domains,
                              confidence = min best_score 1\<rparr>
                   else None
               | None \<Rightarrow> None))"

definition match_by_explicit_mention :: "ExtractedTask \<Rightarrow> TeamMemberStore \<Rightarrow> AssignmentResult option" where
  "match_by_explicit_mention task team_store =
     (case mentioned_person task of
        None \<Rightarrow> None
      | Some person \<Rightarrow>
          if person = [] then None
          else (case find_by_name team_store person of
                  Some member \<Rightarrow>
                    Some \<lparr>team_member = Some member,
                          reasoning = ''Explicitly mentioned in task: '' @ [CHR 0x27] @ person @ [CHR 0x27],
                          confidence = 1\<rparr>
                | None \<Rightarrow> None))"

definition assign ::
  "(string list \<Rightarrow> string list) \<Rightarrow> ExtractedTask \<Rightarrow> TeamMemberStore \<Rightarrow> AssignmentResult" where
  "assign set_iter task team_store =
     (let no_match = \<lparr>team_member = None,
                      reasoning = ''No suitable team member found for this task'',
                      confidence = 0\<rparr>
      in case match_by_explicit_mention task team_store of
           Some explicit_result \<Rightarrow>
             (if team_member explicit_result \<noteq> None then explicit_result
              else (case match_by_skills set_iter task team_store of
                      Some skill_result \<Rightarrow>
                        if team_member skill_result \<noteq> None then skill_result else no_match
                    | None \<Rightarrow> no_match))
         | None \<Rightarrow>
             (case match_by_skills set_iter task team_store of
                Some skill_result \<Rightarrow>
                  if team_member skill_result \<noteq> None then skill_result else no_match
              | None \<Rightarrow> no_match))"


section \<open>Dependency resolution (dependency\_resolver.py)\<close>

datatype py_error = KeyError | OverflowError | ValueError | IndexError | AttributeError | TypeError
  | RecursionError | NotRepresentable

record TaskDependency =
  dependent_task_index :: int
  prerequisite_task_index :: int
  dependency_phrase :: string

text \<open>
  A Python dictionary is an association list in insertion order (\<open>map_of\<close> reads a key,
  \<open>AList.update\<close> assigns to it, a key that is not bound raises \<open>KeyError\<close>), and a Python
  set of task indices is a duplicate-free list. The order in which Python iterates over a
  set is left open by the language; the functions take it as the parameter \<open>set_iter\<close>, and
  the theorems hold for every iteration order that yields each element once.
\<close>

definition iter_ok :: "('a list \<Rightarrow> 'a list) \<Rightarrow> bool" where
  "iter_ok set_iter = (\<forall>xs. distinct xs \<longrightarrow> distinct (set_iter xs) \<and> set (set_iter xs) = set xs)"

definition range_list :: "int \<Rightarrow> int list" where
  \<comment> \<open>\<open>range(n)\<close>\<close>
  "range_list n = [0..n - 1]"

subsection \<open>Topological order\<close>

fun add_edges ::
  "TaskDependency list \<Rightarrow> (int \<times> int list) list \<times> (int \<times> int) list
     \<Rightarrow> py_error + ((int \<times> int list) list \<times> (int \<times> int) list)" where
  \<comment> \<open>The loop \<open>for dep in dependencies\<close> of \<open>get_dependency_order\<close>.\<close>
  "add_edges [] (graph, in_degree) = Inr (graph, in_degree)"
| "add_edges (dep # deps) (graph, in_degree) =
     (case map_of graph (prerequisite_task_index dep) of
        None \<Rightarrow> Inl KeyError
      | Some succs \<Rightarrow>
          (case map_of in_degree (dependent_task_index dep) of
             None \<Rightarrow> Inl KeyError
           | Some d \<Rightarrow>
               add_edges deps
                 (AList.update (prerequisite_task_index dep)
                    (set_add (dependent_task_index dep) succs) graph,
                  AList.update (dependent_task_index dep) (d + 1) in_degree)))"

fun relax ::
  "int list \<Rightarrow> (int \<times> int) list \<times> int list \<Rightarrow> py_error + ((int \<times> int) list \<times> int list)" where
  \<comment> \<open>The loop \<open>for neighbor in graph[node]\<close>: decrement, and enqueue at zero.\<close>
  "relax [] (in_degree, queue) = Inr (in_degree, queue)"
| "relax (neighbor # rest) (in_degree, queue) =
     (case map_of in_degree neighbor of
        None \<Rightarrow> Inl KeyError
      | Some d \<Rightarrow>
          relax rest
            (AList.update neighbor (d - 1) in_degree,
             if d - 1 = 0 then queue @ [neighbor] else queue))"

definition positive_entries :: "(int \<times> int) list \<Rightarrow> nat" where
  "positive_entries in_degree = length (filter (\<lambda>kv. 1 \<le> snd kv) in_degree)"

lemma positive_entries_update:
  "map_of al k = Some d \<Longrightarrow>
   positive_entries (AList.update k v al) + (if 1 \<le> d then 1 else 0)
     = positive_entries al + (if 1 \<le> v then 1 else 0)"
  by (induction al) (auto simp: positive_entries_def)

lemma relax_measure:
  "relax nbs (in_degree, queue) = Inr (in_degree', queue') \<Longrightarrow>
   length queue' + positive_entries in_degree' \<le> length queue + positive_entries in_degree"
proof (induction nbs arbitrary: in_degree queue)
  case Nil
  then show ?case by simp
next
  case (Cons nb nbs)
  from Cons.prems obtain d where d: "map_of in_degree nb = Some d"
    by (auto split: option.splits)
  let ?ind = "AList.update nb (d - 1) in_degree"
  let ?q = "if d - 1 = 0 then queue @ [nb] else queue"
  from Cons.prems d have "relax nbs (?ind, ?q) = Inr (in_degree', queue')"
    by simp
  from Cons.IH [OF this]
  have "length queue' + positive_entries in_degree' \<le> length ?q + positive_entries ?ind" .
  moreover have "length ?q + positive_entries ?ind \<le> length queue + positive_entries in_degree"
    using positive_entries_update [OF d, of "d - 1"] by (auto split: if_splits)
  ultimately show ?case by linarith
qed

function kahn_loop ::
  "(int list \<Rightarrow> int list) \<Rightarrow> (int \<times> int list) list
     \<Rightarrow> int list \<times> int list \<times> (int \<times> int) list \<Rightarrow> py_error + int list" where
  \<comment> \<open>\<open>while queue:\<close> with \<open>queue.pop(0)\<close> and \<open>result.append(node)\<close>.\<close>
  "kahn_loop set_iter graph ([], result, in_degree) = Inr result"
| "kahn_loop set_iter graph (node # queue, result, in_degree) =
     (case map_of graph node of
        None \<Rightarrow> Inl KeyError
      | Some succs \<Rightarrow>
          (case relax (set_iter succs) (in_degree, queue) of
             Inl e \<Rightarrow> Inl e
           | Inr (in_degree', queue') \<Rightarrow>
               kahn_loop set_iter graph (queue', result @ [node], in_degree')))"
  by pat_completeness auto
termination
proof (relation "measure (\<lambda>(set_iter, graph, queue, result, in_degree).
                            length queue + positive_entries in_degree)")
  show "wf (measure (\<lambda>(set_iter, graph, queue, result, in_degree).
                       length queue + positive_entries in_degree))"
    by simp
next
  fix set_iter :: "int list \<Rightarrow> int list" and graph :: "(int \<times> int list) list"
    and node queue result in_degree succs x in_degree' queue'
  assume "relax (set_iter succs) (in_degree, queue) = Inr x" and "(in_degree', queue') = x"
  then have "relax (set_iter succs) (in_degree, queue) = Inr (in_degree', queue')"
    by simp
  from relax_measure [OF this]
  show "((set_iter, graph, queue', result @ [node], in_degree'),
         (set_iter, graph, node # queue, result, in_degree))
        \<in> measure (\<lambda>(set_iter, graph, queue, result, in_degree).
                      length queue + positive_entries in_degree)"
    by simp
qed

definition get_dependency_order ::
  "(int list \<Rightarrow> int list) \<Rightarrow> int \<Rightarrow> TaskDependency list \<Rightarrow> py_error + int list" where
  "get_dependency_order set_iter num_tasks dependencies =
     (case add_edges dependencies
             (map (\<lambda>i. (i, [])) (range_list num_tasks),
              map (\<lambda>i. (i, 0)) (range_list num_tasks)) of
        Inl e \<Rightarrow> Inl e
      | Inr (graph, in_degree) \<Rightarrow>
          (case kahn_loop set_iter graph
                  (filter (\<lambda>i. map_of in_degree i = Some 0) (range_list num_tasks), [], in_degree) of
             Inl e \<Rightarrow> Inl e
           | Inr result \<Rightarrow>
               if int (length result) \<noteq> num_tasks
               then Inr (result @ filter (\<lambda>i. i \<notin> set result) (range_list num_tasks))
               else Inr result))"


definition indices_in_range :: "int \<Rightarrow> TaskDependency list \<Rightarrow> bool" where
  \<comment> \<open>Every index of every dependency lies in \<open>range(num_tasks)\<close>.\<close>
  "indices_in_range num_tasks dependencies =
     list_all (\<lambda>d. 0 \<le> dependent_task_index d \<and> dependent_task_index d < num_tasks
                  \<and> 0 \<le> prerequisite_task_index d \<and> prerequisite_task_index d < num_tasks)
              dependencies"


subsection \<open>Cycle detection\<close>








definition dependency_edges :: "TaskDependency list \<Rightarrow> (int \<times> int) set" where
  \<comment> \<open>The digraph of a dependency list: an edge from each dependent to its prerequisite.\<close>
  "dependency_edges dependencies =
     set (map (\<lambda>d. (dependent_task_index d, prerequisite_task_index d)) dependencies)"


section \<open>Output serialization (output\_serializer.py)\<close>

text \<open>
  \<open>json\<close> is the Python value that \<open>json.loads\<close> returns and \<open>json.dumps\<close> accepts: an
  object is a dictionary in insertion order. A float is kept as the text of its literal.
  \<open>json.dumps\<close> and \<open>json.loads\<close> themselves belong to Python's library; the functions
  below take them as the parameters \<open>dumps\<close> and \<open>loads\<close>, over any type of JSON text.
\<close>

datatype json = JNull | JBool bool | JInt int | JFloat string | JStr string
  | JArr "json list" | JObj "(string \<times> json) list"

definition to_dict :: "TaskOutput \<Rightarrow> json" where
  \<comment> \<open>\<open>OutputSerializer.to_dict\<close>, the same dictionary as \<open>TaskOutput.to_dict\<close>.\<close>
  "to_dict task =
     JObj [(''task_number'', JInt (task_number task)),
           (''description'', JStr (description_out task)),
           (''assigned_to'', case assigned_to task of None \<Rightarrow> JNull | Some s \<Rightarrow> JStr s),
           (''deadline'', case deadline_out task of None \<Rightarrow> JNull | Some s \<Rightarrow> JStr s),
           (''priority'', JStr (priority_out task)),
           (''dependencies'', case dependencies_out task of None \<Rightarrow> JNull | Some s \<Rightarrow> JStr s),
           (''reasoning'', case reasoning_out task of None \<Rightarrow> JNull | Some s \<Rightarrow> JStr s)]"

text \<open>
  \<open>TaskOutput.from_dict\<close> stores whatever value the dictionary holds. The record is typed
  as the dataclass is annotated, so a value of another type has no place in it: the model
  answers \<open>NotRepresentable\<close> there, which is not a Python exception.
\<close>

definition get_int :: "(string \<times> json) list \<Rightarrow> string \<Rightarrow> int \<Rightarrow> py_error + int" where
  "get_int data k dflt =
     (case map_of data k of
        None \<Rightarrow> Inr dflt
      | Some (JInt i) \<Rightarrow> Inr i
      | Some _ \<Rightarrow> Inl NotRepresentable)"

definition get_str :: "(string \<times> json) list \<Rightarrow> string \<Rightarrow> string \<Rightarrow> py_error + string" where
  "get_str data k dflt =
     (case map_of data k of
        None \<Rightarrow> Inr dflt
      | Some (JStr s) \<Rightarrow> Inr s
      | Some _ \<Rightarrow> Inl NotRepresentable)"

definition get_opt_str :: "(string \<times> json) list \<Rightarrow> string \<Rightarrow> py_error + string option" where
  "get_opt_str data k =
     (case map_of data k of
        None \<Rightarrow> Inr None
      | Some JNull \<Rightarrow> Inr None
      | Some (JStr s) \<Rightarrow> Inr (Some s)
      | Some _ \<Rightarrow> Inl NotRepresentable)"

definition bind_err :: "'e + 'a \<Rightarrow> ('a \<Rightarrow> 'e + 'b) \<Rightarrow> 'e + 'b" where
  "bind_err r f = (case r of Inl e \<Rightarrow> Inl e | Inr x \<Rightarrow> f x)"

definition from_dict :: "json \<Rightarrow> py_error + TaskOutput" where
  \<comment> \<open>\<open>TaskOutput.from_dict\<close>; \<open>data.get\<close> on anything but a dictionary raises
      \<open>AttributeError\<close>.\<close>
  "from_dict data =
     (case data of
        JObj kv \<Rightarrow>
          bind_err (get_int kv ''task_number'' 0) (\<lambda>tn.
          bind_err (get_str kv ''description'' []) (\<lambda>ds.
          bind_err (get_opt_str kv ''assigned_to'') (\<lambda>asg.
          bind_err (get_opt_str kv ''deadline'') (\<lambda>dl.
          bind_err (get_str kv ''priority'' ''Medium'') (\<lambda>pr.
          bind_err (get_opt_str kv ''dependencies'') (\<lambda>dp.
          bind_err (get_opt_str kv ''reasoning'') (\<lambda>rs.
            Inr \<lparr>task_number = tn, description_out = ds, assigned_to = asg,
                 deadline_out = dl, priority_out = pr, dependencies_out = dp,
                 reasoning_out = rs\<rparr>)))))))
      | _ \<Rightarrow> Inl AttributeError)"

fun from_dicts :: "json list \<Rightarrow> py_error + TaskOutput list" where
  \<comment> \<open>\<open>[TaskOutput.from_dict(item) for item in items]\<close>\<close>
  "from_dicts [] = Inr []"
| "from_dicts (item # items) =
     bind_err (from_dict item) (\<lambda>t. bind_err (from_dicts items) (\<lambda>ts. Inr (t # ts)))"

definition items_of :: "json \<Rightarrow> py_error + TaskOutput list" where
  \<comment> \<open>The comprehension over \<open>data['tasks']\<close>, whatever that value is: a list gives its
      items, a string its characters and a dictionary its keys (on which \<open>from_dict\<close>
      raises), anything else is not iterable.\<close>
  "items_of v =
     (case v of
        JArr items \<Rightarrow> from_dicts items
      | JStr s \<Rightarrow> if s = [] then Inr [] else Inl AttributeError
      | JObj kv \<Rightarrow> if kv = [] then Inr [] else Inl AttributeError
      | _ \<Rightarrow> Inl TypeError)"

definition serialize :: "(json \<Rightarrow> 'txt) \<Rightarrow> TaskOutput list \<Rightarrow> 'txt" where
  "serialize dumps tasks = dumps (JArr (map to_dict tasks))"

definition deserialize :: "('txt \<Rightarrow> py_error + json) \<Rightarrow> 'txt \<Rightarrow> py_error + TaskOutput list" where
  "deserialize loads json_str =
     bind_err (loads json_str) (\<lambda>data.
       case data of
         JArr items \<Rightarrow> from_dicts items
       | JObj kv \<Rightarrow>
           (case map_of kv ''tasks'' of
              Some v \<Rightarrow> items_of v
            | None \<Rightarrow> Inl ValueError)
       | _ \<Rightarrow> Inl ValueError)"

subsection \<open>CSV\<close>

function str_nat :: "nat \<Rightarrow> string" where
  \<comment> \<open>The decimal digits of a natural number.\<close>
  "str_nat n = (if n < 10 then [char_of (48 + n)] else str_nat (n div 10) @ [char_of (48 + n mod 10)])"
  by pat_completeness auto
termination
  by (relation "measure (\<lambda>n. n)") auto

declare str_nat.simps [simp del]

definition str_int :: "int \<Rightarrow> string" where
  \<comment> \<open>\<open>str(i)\<close> for a Python integer.\<close>
  "str_int i = (if i < 0 then CHR ''-'' # str_nat (nat (- i)) else str_nat (nat i))"

definition digits_value :: "string \<Rightarrow> nat" where
  \<comment> \<open>\<open>int(s)\<close> for a string of decimal digits\<close>
  "digits_value s = foldl (\<lambda>a c. 10 * a + (of_char c - 48)) 0 s"

definition or_empty :: "string option \<Rightarrow> string" where
  \<comment> \<open>\<open>x or ''\<close>\<close>
  "or_empty x = (case x of None \<Rightarrow> [] | Some s \<Rightarrow> s)"

definition CSV_HEADER :: "string list" where
  "CSV_HEADER = [''Task Number'', ''Description'', ''Assigned To'', ''Deadline'', ''Priority'',
                 ''Dependencies'', ''Reasoning'']"

definition csv_fields :: "TaskOutput \<Rightarrow> string list" where
  \<comment> \<open>The row handed to \<open>writer.writerow\<close>, with the task number as \<open>csv\<close> writes it.\<close>
  "csv_fields task =
     [str_int (task_number task),
      description_out task,
      or_empty (assigned_to task),
      or_empty (deadline_out task),
      priority_out task,
      or_empty (dependencies_out task),
      or_empty (reasoning_out task)]"

text \<open>
  \<open>csv.writer\<close> with its default dialect: fields joined by a comma, a row ended by CR LF,
  and a field that holds a comma, a double quote, CR or LF put in double quotes with its
  double quotes doubled.
\<close>

definition csv_special :: "char \<Rightarrow> bool" where
  "csv_special c = (c = CHR '','' \<or> c = CHR 0x22 \<or> c = CHR 0x0D \<or> c = CHR 0x0A)"

fun csv_escape :: "string \<Rightarrow> string" where
  "csv_escape [] = []"
| "csv_escape (c # cs) = (if c = CHR 0x22 then CHR 0x22 # CHR 0x22 # csv_escape cs else c # csv_escape cs)"

definition csv_field :: "string \<Rightarrow> string" where
  "csv_field f = (if list_ex csv_special f then CHR 0x22 # csv_escape f @ [CHR 0x22] else f)"

definition csv_row :: "string list \<Rightarrow> string" where
  "csv_row cells = join '','' (map csv_field cells) @ [CHR 0x0D, CHR 0x0A]"

definition serialize_to_csv :: "TaskOutput list \<Rightarrow> string" where
  "serialize_to_csv tasks = concat (map csv_row (CSV_HEADER # map csv_fields tasks))"


section \<open>Regular expressions (Python's \<open>re\<close>)\<close>

text \<open>
  The patterns of the repository use literals, character classes, greedy and lazy
  repetition of a single character class, optional groups, alternation, capturing groups,
  \<open>^\<close>, \<open>$\<close>, \<open>\b\<close> and a one-character lookbehind. \<open>rx\<close> is the syntax of such a
  pattern, and \<open>rx_match\<close> is Python's backtracking matcher on it: alternatives are tried
  from left to right, a greedy repetition takes the longest run first and a lazy one the
  shortest, and the first way to match the whole pattern wins. The continuation \<open>k\<close> is
  the rest of the pattern. A state of the matcher is the character before the position
  (for \<open>^\<close>, \<open>\b\<close> and the lookbehind), the text from the position on, and the groups
  captured so far.
\<close>

definition is_word :: "char \<Rightarrow> bool" where
  \<comment> \<open>\<open>\w\<close> on a code point below 256: alphanumeric (\<open>str.isalnum\<close>) or underscore.\<close>
  "is_word c =
     (let n = (of_char c :: nat)
      in (48 \<le> n \<and> n \<le> 57) \<or> (65 \<le> n \<and> n \<le> 90) \<or> n = 95 \<or> (97 \<le> n \<and> n \<le> 122)
         \<or> n = 170 \<or> n = 178 \<or> n = 179 \<or> n = 181 \<or> n = 185 \<or> n = 186
         \<or> (188 \<le> n \<and> n \<le> 190) \<or> (192 \<le> n \<and> n \<le> 214) \<or> (216 \<le> n \<and> n \<le> 246)
         \<or> 248 \<le> n)"

definition is_digit :: "char \<Rightarrow> bool" where
  \<comment> \<open>\<open>\d\<close> on a code point below 256\<close>
  "is_digit c = (let n = (of_char c :: nat) in 48 \<le> n \<and> n \<le> 57)"

definition is_dot :: "char \<Rightarrow> bool" where
  \<comment> \<open>\<open>.\<close>: anything but a line feed\<close>
  "is_dot c = (c \<noteq> CHR 0x0A)"

datatype rx =
    Lit string
  | Cls "char \<Rightarrow> bool"
  | Rep "char \<Rightarrow> bool" bool
  | Seq rx rx
  | Alt rx rx
  | Opt rx
  | Grp nat rx
  | Bol
  | Eol
  | WordB
  | Behind "char \<Rightarrow> bool"

type_synonym rx_groups = "(nat \<times> string) list"

type_synonym rx_cont = "char option \<Rightarrow> string \<Rightarrow> rx_groups \<Rightarrow> (string \<times> rx_groups) option"

fun lit_match :: "bool \<Rightarrow> string \<Rightarrow> char option \<Rightarrow> string \<Rightarrow> (char option \<times> string) option" where
  \<comment> \<open>A literal at the position; with \<open>re.IGNORECASE\<close> (the flag \<open>ic\<close>) letters are
      compared in lower case.\<close>
  "lit_match ic [] p s = Some (p, s)"
| "lit_match ic (l # ls) p [] = None"
| "lit_match ic (l # ls) p (x # xs) =
     (if (if ic then lower_char x = lower_char l else x = l) then lit_match ic ls (Some x) xs
      else None)"

fun rep_greedy :: "(char \<Rightarrow> bool) \<Rightarrow> rx_cont \<Rightarrow> rx_cont" where
  "rep_greedy f k p [] c = k p [] c"
| "rep_greedy f k p (x # xs) c =
     (if f x
      then (case rep_greedy f k (Some x) xs c of Some r \<Rightarrow> Some r | None \<Rightarrow> k p (x # xs) c)
      else k p (x # xs) c)"

fun rep_lazy :: "(char \<Rightarrow> bool) \<Rightarrow> rx_cont \<Rightarrow> rx_cont" where
  "rep_lazy f k p [] c = k p [] c"
| "rep_lazy f k p (x # xs) c =
     (case k p (x # xs) c of
        Some r \<Rightarrow> Some r
      | None \<Rightarrow> if f x then rep_lazy f k (Some x) xs c else None)"

definition word_before :: "char option \<Rightarrow> bool" where
  "word_before p = (case p of None \<Rightarrow> False | Some x \<Rightarrow> is_word x)"

definition word_after :: "string \<Rightarrow> bool" where
  "word_after s = (case s of [] \<Rightarrow> False | x # xs \<Rightarrow> is_word x)"

primrec rx_match :: "rx \<Rightarrow> bool \<Rightarrow> rx_cont \<Rightarrow> rx_cont" where
  "rx_match (Lit l) ic k p s c =
     (case lit_match ic l p s of None \<Rightarrow> None | Some (p', s') \<Rightarrow> k p' s' c)"
| "rx_match (Cls f) ic k p s c =
     (case s of [] \<Rightarrow> None | x # xs \<Rightarrow> if f x then k (Some x) xs c else None)"
| "rx_match (Rep f greedy) ic k p s c =
     (if greedy then rep_greedy f k p s c else rep_lazy f k p s c)"
| "rx_match (Seq a b) ic k p s c = rx_match a ic (rx_match b ic k) p s c"
| "rx_match (Alt a b) ic k p s c =
     (case rx_match a ic k p s c of Some r \<Rightarrow> Some r | None \<Rightarrow> rx_match b ic k p s c)"
| "rx_match (Opt a) ic k p s c =
     (case rx_match a ic k p s c of Some r \<Rightarrow> Some r | None \<Rightarrow> k p s c)"
| "rx_match (Grp n a) ic k p s c =
     rx_match a ic (\<lambda>p' s' c'. k p' s' ((n, take (length s - length s') s) # c')) p s c"
| "rx_match Bol ic k p s c = (if p = None then k p s c else None)"
| "rx_match Eol ic k p s c = (if s = [] \<or> s = [CHR 0x0A] then k p s c else None)"
| "rx_match WordB ic k p s c = (if word_before p \<noteq> word_after s then k p s c else None)"
| "rx_match (Behind f) ic k p s c =
     (case p of None \<Rightarrow> None | Some x \<Rightarrow> if f x then k p s c else None)"

fun Seqs :: "rx list \<Rightarrow> rx" where
  "Seqs [] = Lit []"
| "Seqs [r] = r"
| "Seqs (r # rs) = Seq r (Seqs rs)"

fun Alts :: "rx list \<Rightarrow> rx" where
  "Alts [] = Cls (\<lambda>c. False)"
| "Alts [r] = r"
| "Alts (r # rs) = Alt r (Alts rs)"

definition Plus :: "(char \<Rightarrow> bool) \<Rightarrow> bool \<Rightarrow> rx" where
  \<comment> \<open>one or more characters of a class: \<open>x+\<close> (greedy) or \<open>x+?\<close> (lazy)\<close>
  "Plus f greedy = Seq (Cls f) (Rep f greedy)"

definition Lits :: "string list \<Rightarrow> rx" where
  \<comment> \<open>an alternation of literals, \<open>(?:a|b|c)\<close>\<close>
  "Lits ls = Alts (map Lit ls)"

record rx_found =
  m_start :: nat
  m_text :: string
  m_groups :: rx_groups

definition rx_match_at :: "rx \<Rightarrow> bool \<Rightarrow> char option \<Rightarrow> string \<Rightarrow> (string \<times> rx_groups) option" where
  \<comment> \<open>The match that starts at this very position, if any: its text and its groups.\<close>
  "rx_match_at r ic p s =
     (case rx_match r ic (\<lambda>p' s' c'. Some (s', c')) p s [] of
        None \<Rightarrow> None
      | Some (s', c') \<Rightarrow> Some (take (length s - length s') s, c'))"

fun rx_search_from :: "rx \<Rightarrow> bool \<Rightarrow> nat \<Rightarrow> char option \<Rightarrow> string \<Rightarrow> rx_found option" where
  "rx_search_from r ic i p [] =
     (case rx_match_at r ic p [] of
        None \<Rightarrow> None
      | Some (t, c) \<Rightarrow> Some \<lparr>m_start = i, m_text = t, m_groups = c\<rparr>)"
| "rx_search_from r ic i p (x # xs) =
     (case rx_match_at r ic p (x # xs) of
        None \<Rightarrow> rx_search_from r ic (Suc i) (Some x) xs
      | Some (t, c) \<Rightarrow> Some \<lparr>m_start = i, m_text = t, m_groups = c\<rparr>)"

definition re_search :: "rx \<Rightarrow> bool \<Rightarrow> string \<Rightarrow> rx_found option" where
  \<comment> \<open>\<open>re.search\<close>: the leftmost match\<close>
  "re_search r ic s = rx_search_from r ic 0 None s"

definition re_match :: "rx \<Rightarrow> bool \<Rightarrow> string \<Rightarrow> rx_found option" where
  \<comment> \<open>\<open>re.match\<close>: a match at the start of the string\<close>
  "re_match r ic s =
     (case rx_match_at r ic None s of
        None \<Rightarrow> None
      | Some (t, c) \<Rightarrow> Some \<lparr>m_start = 0, m_text = t, m_groups = c\<rparr>)"

definition group :: "rx_found \<Rightarrow> nat \<Rightarrow> string" where
  \<comment> \<open>\<open>match.group(n)\<close> for a group that took part in the match (every group read by the
      repository does); the captures are kept latest first.\<close>
  "group m n = (case map_of (m_groups m) n of None \<Rightarrow> [] | Some t \<Rightarrow> t)"

datatype rx_token = TChar char | TMatch string rx_groups

fun rx_scan :: "rx \<Rightarrow> bool \<Rightarrow> nat \<Rightarrow> char option \<Rightarrow> string \<Rightarrow> rx_token list" where
  \<comment> \<open>The text cut into its successive non-overlapping matches and the characters
      between them, scanning from left to right as \<open>re.findall\<close>, \<open>re.split\<close> and \<open>re.sub\<close>
      do. \<open>skip\<close> counts the characters of the current match still to pass over. After an
      empty match the scan moves on by one character.\<close>
  "rx_scan r ic skip p [] =
     (if skip = 0
      then (case rx_match_at r ic p [] of None \<Rightarrow> [] | Some (t, c) \<Rightarrow> [TMatch t c])
      else [])"
| "rx_scan r ic skip p (x # xs) =
     (if skip > 0 then rx_scan r ic (skip - 1) (Some x) xs
      else (case rx_match_at r ic p (x # xs) of
              None \<Rightarrow> TChar x # rx_scan r ic 0 (Some x) xs
            | Some (t, c) \<Rightarrow>
                if t = [] then TMatch t c # TChar x # rx_scan r ic 0 (Some x) xs
                else TMatch t c # rx_scan r ic (length t - 1) (Some x) xs))"

definition re_findall :: "rx \<Rightarrow> bool \<Rightarrow> string \<Rightarrow> string list" where
  \<comment> \<open>\<open>re.findall\<close> for a pattern with one capturing group: the text of group 1 of each
      match.\<close>
  "re_findall r ic s =
     concat (map (\<lambda>t. case t of TChar x \<Rightarrow> []
                          | TMatch txt c \<Rightarrow> [case map_of c 1 of None \<Rightarrow> [] | Some g \<Rightarrow> g])
                 (rx_scan r ic 0 None s))"

fun split_tokens :: "string \<Rightarrow> rx_token list \<Rightarrow> string list" where
  "split_tokens cur [] = [rev cur]"
| "split_tokens cur (TChar x # ts) = split_tokens (x # cur) ts"
| "split_tokens cur (TMatch t c # ts) = rev cur # split_tokens [] ts"

definition re_split :: "rx \<Rightarrow> bool \<Rightarrow> string \<Rightarrow> string list" where
  \<comment> \<open>\<open>re.split\<close> for a pattern without capturing groups\<close>
  "re_split r ic s = split_tokens [] (rx_scan r ic 0 None s)"

definition re_sub_empty :: "rx \<Rightarrow> bool \<Rightarrow> string \<Rightarrow> string" where
  \<comment> \<open>\<open>re.sub(pattern, '', s)\<close>: the matches removed\<close>
  "re_sub_empty r ic s =
     concat (map (\<lambda>t. case t of TChar x \<Rightarrow> [x] | TMatch txt c \<Rightarrow> []) (rx_scan r ic 0 None s))"


section \<open>Deadline parsing (deadline\_parser.py)\<close>

subsection \<open>Dates\<close>

text \<open>
  \<open>datetime.date\<close> covers the years 1 to 9999 of the proleptic Gregorian calendar, that is
  the ordinals 1 to 3652059. Adding a \<open>timedelta\<close> that leaves this range raises
  \<open>OverflowError\<close>, as does a \<open>timedelta\<close> of more than 999999999 days; \<open>date(y, m, d)\<close>
  raises \<open>ValueError\<close> outside the calendar.
\<close>

definition MAXORDINAL :: int where
  "MAXORDINAL = 3652059"

definition date_add :: "date \<Rightarrow> int \<Rightarrow> py_error + date" where
  \<comment> \<open>\<open>d + timedelta(days=k)\<close>\<close>
  "date_add d k =
     (if 999999999 < \<bar>k\<bar> then Inl OverflowError
      else if 1 \<le> d + k \<and> d + k \<le> MAXORDINAL then Inr (d + k)
      else Inl OverflowError)"

definition weekday :: "date \<Rightarrow> int" where
  \<comment> \<open>\<open>d.weekday()\<close>: Monday is 0, and day 1 is a Monday\<close>
  "weekday d = (d + 6) mod 7"

definition is_leap :: "int \<Rightarrow> bool" where
  "is_leap y = (y mod 4 = 0 \<and> (y mod 100 \<noteq> 0 \<or> y mod 400 = 0))"

definition days_in_year :: "int \<Rightarrow> int" where
  "days_in_year y = (if is_leap y then 366 else 365)"

definition days_before_year :: "int \<Rightarrow> int" where
  \<comment> \<open>the number of days before January 1st of year \<open>y\<close>\<close>
  "days_before_year y = (y - 1) * 365 + (y - 1) div 4 - (y - 1) div 100 + (y - 1) div 400"

definition days_in_month :: "int \<Rightarrow> int \<Rightarrow> int" where
  "days_in_month y m =
     (if m = 2 then (if is_leap y then 29 else 28)
      else if m = 4 \<or> m = 6 \<or> m = 9 \<or> m = 11 then 30
      else 31)"

definition days_before_month :: "int \<Rightarrow> int \<Rightarrow> int" where
  \<comment> \<open>the number of days of year \<open>y\<close> before the first day of month \<open>m\<close>\<close>
  "days_before_month y m =
     (if m \<le> 1 then 0 else if m = 2 then 31
      else (if is_leap y then 1 else 0)
           + (if m = 3 then 59 else if m = 4 then 90 else if m = 5 then 120
              else if m = 6 then 151 else if m = 7 then 181 else if m = 8 then 212
              else if m = 9 then 243 else if m = 10 then 273 else if m = 11 then 304
              else 334))"

function year_from :: "int \<Rightarrow> int \<Rightarrow> int \<times> int" where
  \<comment> \<open>The year and the day of the year of the \<open>n\<close>-th day counted from January 1st of
      year \<open>y\<close>.\<close>
  "year_from y n =
     (if n \<le> days_in_year y then (y, n) else year_from (y + 1) (n - days_in_year y))"
  by pat_completeness auto
termination
  by (relation "measure (\<lambda>(y, n). nat n)") (auto simp: days_in_year_def split: if_splits)

declare year_from.simps [simp del]

function month_from :: "int \<Rightarrow> int \<Rightarrow> int \<Rightarrow> int \<times> int" where
  \<comment> \<open>The month and the day of the month of the \<open>n\<close>-th day counted from the first day of
      month \<open>m\<close> of year \<open>y\<close>.\<close>
  "month_from y m n =
     (if 12 \<le> m \<or> n \<le> days_in_month y m then (m, n)
      else month_from y (m + 1) (n - days_in_month y m))"
  by pat_completeness auto
termination
  by (relation "measure (\<lambda>(y, m, n). nat (12 - m))") auto

declare month_from.simps [simp del]

definition date_year :: "date \<Rightarrow> int" where
  \<comment> \<open>\<open>d.year\<close>\<close>
  "date_year d = fst (year_from 1 d)"

definition date_month :: "date \<Rightarrow> int" where
  \<comment> \<open>\<open>d.month\<close>\<close>
  "date_month d = (case year_from 1 d of (y, n) \<Rightarrow> fst (month_from y 1 n))"

definition date_ymd :: "int \<Rightarrow> int \<Rightarrow> int \<Rightarrow> py_error + date" where
  \<comment> \<open>\<open>date(y, m, d)\<close>\<close>
  "date_ymd y m d =
     (if 1 \<le> y \<and> y \<le> 9999 \<and> 1 \<le> m \<and> m \<le> 12 \<and> 1 \<le> d \<and> d \<le> days_in_month y m
      then Inr (days_before_year y + days_before_month y m + d)
      else Inl ValueError)"

subsection \<open>The parser\<close>

definition next_weekday :: "date \<Rightarrow> int \<Rightarrow> py_error + date" where
  "next_weekday from_date wd =
     (let days_ahead = wd - weekday from_date;
          days_ahead' = (if days_ahead \<le> 0 then days_ahead + 7 else days_ahead)
      in date_add from_date days_ahead')"

definition end_of_week :: "date \<Rightarrow> py_error + date" where
  "end_of_week from_date =
     (let days_until_friday = 4 - weekday from_date;
          days_until_friday' = (if days_until_friday < 0 then days_until_friday + 7
                                else days_until_friday)
      in date_add from_date days_until_friday')"

definition end_of_month :: "date \<Rightarrow> py_error + date" where
  "end_of_month from_date =
     bind_err (if date_month from_date = 12
               then date_ymd (date_year from_date + 1) 1 1
               else date_ymd (date_year from_date) (date_month from_date + 1) 1)
       (\<lambda>next_month. date_add next_month (- 1))"

definition WEEKDAYS :: "(string \<times> int) list" where
  "WEEKDAYS =
     [(''monday'', 0), (''tuesday'', 1), (''wednesday'', 2), (''thursday'', 3),
      (''friday'', 4), (''saturday'', 5), (''sunday'', 6)]"

definition RELATIVE_PATTERNS :: "(string \<times> (date \<Rightarrow> py_error + date)) list" where
  "RELATIVE_PATTERNS =
     [(''today'', \<lambda>d. Inr d),
      (''tonight'', \<lambda>d. Inr d),
      (''tomorrow'', \<lambda>d. date_add d 1),
      (''tomorrow evening'', \<lambda>d. date_add d 1),
      (''tomorrow morning'', \<lambda>d. date_add d 1),
      (''next week'', \<lambda>d. date_add d 7),
      (''next monday'', \<lambda>d. next_weekday d 0),
      (''next tuesday'', \<lambda>d. next_weekday d 1),
      (''next wednesday'', \<lambda>d. next_weekday d 2),
      (''next thursday'', \<lambda>d. next_weekday d 3),
      (''next friday'', \<lambda>d. next_weekday d 4),
      (''next saturday'', \<lambda>d. next_weekday d 5),
      (''next sunday'', \<lambda>d. next_weekday d 6),
      (''end of week'', \<lambda>d. end_of_week d),
      (''end of this week'', \<lambda>d. end_of_week d),
      (''this week'', \<lambda>d. end_of_week d),
      (''end of month'', \<lambda>d. end_of_month d),
      (''end of this month'', \<lambda>d. end_of_month d)]"

definition rx_by_weekday :: rx where
  \<comment> \<open>\<open>by\s+(\w+)\<close>\<close>
  "rx_by_weekday = Seqs [Lit ''by'', Plus is_space True, Grp 1 (Plus is_word True)]"

definition rx_in_n :: rx where
  \<comment> \<open>\<open>in\s+(\d+)\s+(day|days|week|weeks)\<close>\<close>
  "rx_in_n =
     Seqs [Lit ''in'', Plus is_space True, Grp 1 (Plus is_digit True), Plus is_space True,
           Grp 2 (Lits [''day'', ''days'', ''week'', ''weeks''])]"

definition rx_n_days :: rx where
  \<comment> \<open>\<open>(\d+)\s+days?\<close>\<close>
  "rx_n_days =
     Seqs [Grp 1 (Plus is_digit True), Plus is_space True, Lit ''day'', Opt (Lit ''s'')]"

definition some_date :: "py_error + date \<Rightarrow> py_error + date option" where
  "some_date r = (case r of Inl e \<Rightarrow> Inl e | Inr d \<Rightarrow> Inr (Some d))"

definition parse :: "date \<Rightarrow> string \<Rightarrow> date option \<Rightarrow> py_error + date option" where
  \<comment> \<open>\<open>DeadlineParser.parse\<close>; \<open>today\<close> stands for \<open>date.today()\<close>. The length limit that
      recent interpreters put on \<open>int()\<close> of a digit string is not modelled.\<close>
  "parse today phrase reference_date =
     (if phrase = [] then Inr None
      else
        (let ref_date = (case reference_date of None \<Rightarrow> today | Some r \<Rightarrow> r);
             phrase_lower = strip (lower phrase)
         in case map_of RELATIVE_PATTERNS phrase_lower of
              Some f \<Rightarrow> some_date (f ref_date)
            | None \<Rightarrow>
                (case (case re_match rx_by_weekday False phrase_lower of
                         None \<Rightarrow> None
                       | Some by_match \<Rightarrow> map_of WEEKDAYS (group by_match 1)) of
                   Some day_num \<Rightarrow> some_date (next_weekday ref_date day_num)
                 | None \<Rightarrow>
                     (case find (\<lambda>(day_name, day_num). str_in day_name phrase_lower) WEEKDAYS of
                        Some (day_name, day_num) \<Rightarrow> some_date (next_weekday ref_date day_num)
                      | None \<Rightarrow>
                          (case re_match rx_in_n False phrase_lower of
                             Some in_match \<Rightarrow>
                               (let num = int (digits_value (group in_match 1));
                                    unit = group in_match 2
                                in if str_in ''week'' unit
                                   then some_date (date_add ref_date (7 * num))
                                   else some_date (date_add ref_date num))
                           | None \<Rightarrow>
                               (case re_match rx_n_days False phrase_lower of
                                  Some days_match \<Rightarrow>
                                    some_date (date_add ref_date
                                                 (int (digits_value (group days_match 1))))
                                | None \<Rightarrow> Inr None))))))"

definition is_valid_deadline :: "date \<Rightarrow> date \<Rightarrow> date option \<Rightarrow> py_error + bool" where
  "is_valid_deadline today parsed_date reference_date =
     (let ref_date = (case reference_date of None \<Rightarrow> today | Some r \<Rightarrow> r)
      in if parsed_date < ref_date then Inr False
         else bind_err (date_add ref_date 365)
                (\<lambda>max_date. if parsed_date > max_date then Inr False else Inr True))"


section \<open>Properties\<close>

subsection \<open>Strings\<close>

lemma strip_Nil_iff: "strip s = [] \<longleftrightarrow> (\<forall>c \<in> set s. is_space c)"
proof -
  have "strip s = [] \<longleftrightarrow> dropWhile is_space (rev (dropWhile is_space s)) = []"
    by (simp add: strip_def)
  also have "\<dots> \<longleftrightarrow> (\<forall>c \<in> set (dropWhile is_space s). is_space c)"
    by (simp add: dropWhile_eq_Nil_conv)
  also have "\<dots> \<longleftrightarrow> (\<forall>c \<in> set s. is_space c)"
  proof
    assume a: "\<forall>c \<in> set (dropWhile is_space s). is_space c"
    show "\<forall>c \<in> set s. is_space c"
    proof (cases "dropWhile is_space s")
      case Nil
      then show ?thesis by (simp add: dropWhile_eq_Nil_conv)
    next
      case (Cons x xs)
      then have "\<not> is_space x" using hd_dropWhile [of is_space s] by simp
      moreover have "x \<in> set (dropWhile is_space s)" using Cons by simp
      ultimately show ?thesis using a by blast
    qed
  next
    assume "\<forall>c \<in> set s. is_space c"
    then show "\<forall>c \<in> set (dropWhile is_space s). is_space c"
      using set_dropWhileD by fastforce
  qed
  finally show ?thesis .
qed

subsection \<open>Team member validation\<close>

lemma validate_member_missing_fields:
  "missing_fields (validate_member m) =
     (if \<forall>c \<in> set (name m). is_space c then [''name''] else [])
     @ (if \<forall>c \<in> set (role m). is_space c then [''role''] else [])
     @ (if skills m = [] then [''skills''] else [])"
proof -
  have nm: "(name m = [] \<or> strip (name m) = []) \<longleftrightarrow> (\<forall>c \<in> set (name m). is_space c)"
    using strip_Nil_iff [of "name m"] by auto
  have rl: "(role m = [] \<or> strip (role m) = []) \<longleftrightarrow> (\<forall>c \<in> set (role m). is_space c)"
    using strip_Nil_iff [of "role m"] by auto
  show ?thesis
    unfolding validate_member_def Let_def nm rl by simp
qed

lemma validate_member_is_valid:
  "is_valid (validate_member m) \<longleftrightarrow>
     \<not> (\<forall>c \<in> set (name m). is_space c) \<and> \<not> (\<forall>c \<in> set (role m). is_space c)
     \<and> skills m \<noteq> []"
proof -
  have nm: "(name m = [] \<or> strip (name m) = []) \<longleftrightarrow> (\<forall>c \<in> set (name m). is_space c)"
    using strip_Nil_iff [of "name m"] by auto
  have rl: "(role m = [] \<or> strip (role m) = []) \<longleftrightarrow> (\<forall>c \<in> set (role m). is_space c)"
    using strip_Nil_iff [of "role m"] by auto
  show ?thesis
    unfolding validate_member_def Let_def nm rl by simp
qed

text \<open>
  Claim C9. For every team member, \<open>validate_member\<close> lists exactly the missing fields:
  \<open>name\<close> (resp. \<open>role\<close>) is listed if and only if it is empty or all whitespace,
  \<open>skills\<close> if and only if the skill list is empty, nothing else is listed, and the result is
  valid if and only if nothing is missing. A key absent from the roster dictionary reads as
  the empty value and is reported as missing too.
\<close>

theorem validate_member_reports_missing:
  "(''name'' \<in> set (missing_fields (validate_member m)) \<longleftrightarrow> (\<forall>c \<in> set (name m). is_space c))
   \<and> (''role'' \<in> set (missing_fields (validate_member m)) \<longleftrightarrow> (\<forall>c \<in> set (role m). is_space c))
   \<and> (''skills'' \<in> set (missing_fields (validate_member m)) \<longleftrightarrow> skills m = [])
   \<and> set (missing_fields (validate_member m)) \<subseteq> {''name'', ''role'', ''skills''}
   \<and> distinct (missing_fields (validate_member m))
   \<and> (is_valid (validate_member m) \<longleftrightarrow>
        \<not> (\<forall>c \<in> set (name m). is_space c) \<and> \<not> (\<forall>c \<in> set (role m). is_space c)
        \<and> skills m \<noteq> [])
   \<and> (is_valid (validate_member m) \<longleftrightarrow> missing_fields (validate_member m) = [])
   \<and> ''name'' \<in> set (missing_fields (validate_member (TeamMember_from_dict None r sk)))
   \<and> ''role'' \<in> set (missing_fields (validate_member (TeamMember_from_dict n None sk)))
   \<and> ''skills'' \<in> set (missing_fields (validate_member (TeamMember_from_dict n r None)))"
proof -
  have 1: "''name'' \<in> set (missing_fields (validate_member m)) \<longleftrightarrow> (\<forall>c \<in> set (name m). is_space c)"
    by (auto simp: validate_member_missing_fields)
  have 2: "''role'' \<in> set (missing_fields (validate_member m)) \<longleftrightarrow> (\<forall>c \<in> set (role m). is_space c)"
    by (auto simp: validate_member_missing_fields)
  have 3: "''skills'' \<in> set (missing_fields (validate_member m)) \<longleftrightarrow> skills m = []"
    by (auto simp: validate_member_missing_fields)
  have 4: "set (missing_fields (validate_member m)) \<subseteq> {''name'', ''role'', ''skills''}"
    by (auto simp: validate_member_missing_fields)
  have 5: "distinct (missing_fields (validate_member m))"
    by (auto simp: validate_member_missing_fields)
  have 6: "is_valid (validate_member m) \<longleftrightarrow> missing_fields (validate_member m) = []"
    by (simp add: validate_member_is_valid validate_member_missing_fields)
  have 7: "is_valid (validate_member m) \<longleftrightarrow>
        \<not> (\<forall>c \<in> set (name m). is_space c) \<and> \<not> (\<forall>c \<in> set (role m). is_space c)
        \<and> skills m \<noteq> []"
    by (simp add: validate_member_is_valid)
  have 8: "''name'' \<in> set (missing_fields (validate_member (TeamMember_from_dict None r sk)))"
    by (simp add: validate_member_missing_fields TeamMember_from_dict_def TeamMember_init_def)
  have 9: "''role'' \<in> set (missing_fields (validate_member (TeamMember_from_dict n None sk)))"
    by (simp add: validate_member_missing_fields TeamMember_from_dict_def TeamMember_init_def)
  have 10: "''skills'' \<in> set (missing_fields (validate_member (TeamMember_from_dict n r None)))"
    by (simp add: validate_member_missing_fields TeamMember_from_dict_def TeamMember_init_def)
  from 1 2 3 4 5 6 7 8 9 10 show ?thesis by blast
qed

theorem validate_member_reports_missing_witness:
  "missing_fields (validate_member \<lparr>name = ''  '', role = ''Backend Developer'', skills = []\<rparr>)
     = [''name'', ''skills'']
   \<and> \<not> is_valid (validate_member \<lparr>name = ''  '', role = ''Backend Developer'', skills = []\<rparr>)
   \<and> is_valid (validate_member \<lparr>name = ''Sakshi'', role = ''Frontend Developer'',
                                skills = [''react'', ''login'']\<rparr>)"
proof -
  have sp: "is_space CHR '' ''" by (simp add: is_space_def)
  have a: "missing_fields (validate_member \<lparr>name = ''  '', role = ''Backend Developer'', skills = []\<rparr>)
             = [''name'', ''skills'']"
    by (simp add: validate_member_def strip_def is_space_def)
  have b: "is_valid (validate_member \<lparr>name = ''Sakshi'', role = ''Frontend Developer'',
                                skills = [''react'', ''login'']\<rparr>)"
    using validate_member_reports_missing
      [of "\<lparr>name = ''Sakshi'', role = ''Frontend Developer'', skills = [''react'', ''login'']\<rparr>"]
    by (simp add: is_space_def)
  have c: "\<not> is_valid (validate_member \<lparr>name = ''  '', role = ''Backend Developer'', skills = []\<rparr>)"
    using validate_member_reports_missing
      [of "\<lparr>name = ''  '', role = ''Backend Developer'', skills = []\<rparr>"]
    by simp
  from a b c show ?thesis by simp
qed

subsection \<open>Priority classification\<close>

text \<open>
  Claim C2, as stated, fails: the first rule of \<open>classify\<close> returns Medium whenever the
  lowercased raw text contains \<open>can wait\<close>, before any Critical indicator is looked at.
  The raw text below contains the Critical indicator \<open>urgent\<close> and is classified Medium.
\<close>

theorem classify_critical_counterexample:
  "''urgent'' \<in> set CRITICAL_INDICATORS
   \<and> str_in ''urgent'' ''This is urgent but it can wait''
   \<and> classify 738000
        \<lparr>description = ''This is urgent'', raw_text = ''This is urgent but it can wait'',
         mentioned_person = None, deadline_phrase = None, priority_indicators = [],
         dependency_phrases = []\<rparr> None None = MEDIUM"
  by code_simp

text \<open>
  Claim C2, amended. For every task whose lowercased raw text contains a Critical indicator
  and does not contain \<open>can wait\<close>, \<open>classify\<close> returns Critical (so never Medium or
  Low), for any deadline argument and any reference date.
\<close>

theorem classify_critical_unless_can_wait:
  assumes "ind \<in> set CRITICAL_INDICATORS"
    and "str_in ind (lower (raw_text task))"
    and "\<not> str_in ''can wait'' (lower (raw_text task))"
  shows "classify today task deadline reference_date = CRITICAL"
proof -
  have "has_critical_indicators (lower (raw_text task)) (priority_indicators task)"
    using assms(1,2)
    by (auto simp: has_critical_indicators_def has_indicators_def list_ex_iff)
  with assms(3) show ?thesis
    by (simp add: classify_def)
qed

theorem classify_critical_unless_can_wait_witness:
  "''critical'' \<in> set CRITICAL_INDICATORS
   \<and> str_in ''critical'' (lower ''We need to fix the CRITICAL login bug'')
   \<and> \<not> str_in ''can wait'' (lower ''We need to fix the CRITICAL login bug'')
   \<and> classify 738000
        \<lparr>description = ''Fix the CRITICAL login bug'',
         raw_text = ''We need to fix the CRITICAL login bug'',
         mentioned_person = None, deadline_phrase = None, priority_indicators = [],
         dependency_phrases = []\<rparr> (Some 738030) (Some 738000) = CRITICAL"
proof -
  have a: "''critical'' \<in> set CRITICAL_INDICATORS"
    by (simp add: CRITICAL_INDICATORS_def)
  have b: "str_in ''critical'' (lower ''We need to fix the CRITICAL login bug'')"
    by code_simp
  have c: "\<not> str_in ''can wait'' (lower ''We need to fix the CRITICAL login bug'')"
    by code_simp
  show ?thesis
    using a b c
      classify_critical_unless_can_wait [of "''critical''"
        "\<lparr>description = ''Fix the CRITICAL login bug'',
          raw_text = ''We need to fix the CRITICAL login bug'',
          mentioned_person = None, deadline_phrase = None, priority_indicators = [],
          dependency_phrases = []\<rparr>" 738000 "Some 738030" "Some 738000"]
    by simp
qed

subsection \<open>Assignment\<close>

lemma match_by_skills_confidence:
  assumes "match_by_skills set_iter task team_store = Some r"
  shows "0 < confidence r \<and> confidence r \<le> 1"
  using assms
  by (auto simp: match_by_skills_def Let_def split: if_splits option.splits prod.splits)

lemma match_by_explicit_mention_confidence:
  assumes "match_by_explicit_mention task team_store = Some r"
  shows "confidence r = 1"
  using assms
  by (auto simp: match_by_explicit_mention_def split: if_splits option.splits)

text \<open>
  Claim C3, as stated, fails in its middle part: confidence 1.0 is not reserved to explicit
  mentions. The skill path returns \<open>min(best_score, 1.0)\<close>, and the role bonus alone lifts a
  score above 1. Below, nobody is mentioned in the task, and the assignment of the one
  member of the store has confidence exactly 1.
\<close>

theorem assign_confidence_one_counterexample:
  "mentioned_person
     \<lparr>description = ''Update documentation'', raw_text = ''Update documentation'',
      mentioned_person = None, deadline_phrase = None, priority_indicators = [],
      dependency_phrases = []\<rparr> = None
   \<and> confidence
        (assign (\<lambda>xs. xs)
           \<lparr>description = ''Update documentation'', raw_text = ''Update documentation'',
            mentioned_person = None, deadline_phrase = None, priority_indicators = [],
            dependency_phrases = []\<rparr>
           (snd (add_member (TeamMember_init ''Mohit'' ''Backend Developer'' [''documentation''])
                   []))) = 1"
  by code_simp

text \<open>
  Claim C3, amended. For every task, every team store and every iteration order of the
  domain set, \<open>assign\<close> returns a confidence in [0, 1]; and whenever the task's mentioned
  person resolves to a known member, \<open>assign\<close> returns that member with confidence exactly
  1.0 and the reasoning that cites the mention, without any skill scoring. (Confidence 1.0
  is also what the skill path returns once the best score reaches 1.)
\<close>

theorem assign_confidence_range_and_explicit_mention:
  "0 \<le> confidence (assign set_iter task team_store)
   \<and> confidence (assign set_iter task team_store) \<le> 1
   \<and> (\<forall>person member.
         mentioned_person task = Some person \<and> person \<noteq> []
         \<and> find_by_name team_store person = Some member
         \<longrightarrow> assign set_iter task team_store =
               \<lparr>team_member = Some member,
                reasoning = ''Explicitly mentioned in task: '' @ [CHR 0x27] @ person @ [CHR 0x27],
                confidence = 1\<rparr>)"
proof -
  have range: "0 \<le> confidence (assign set_iter task team_store)
               \<and> confidence (assign set_iter task team_store) \<le> 1"
  proof (cases "match_by_explicit_mention task team_store")
    case None
    then show ?thesis
      using match_by_skills_confidence [of set_iter task team_store]
      by (cases "match_by_skills set_iter task team_store") (auto simp: assign_def Let_def)
  next
    case (Some e)
    then show ?thesis
      using match_by_skills_confidence [of set_iter task team_store]
        match_by_explicit_mention_confidence [of task team_store e]
      by (cases "match_by_skills set_iter task team_store") (auto simp: assign_def Let_def)
  qed
  have explicit: "assign set_iter task team_store =
               \<lparr>team_member = Some member,
                reasoning = ''Explicitly mentioned in task: '' @ [CHR 0x27] @ person @ [CHR 0x27],
                confidence = 1\<rparr>"
    if "mentioned_person task = Some person" "person \<noteq> []"
      "find_by_name team_store person = Some member" for person member
    using that by (simp add: assign_def match_by_explicit_mention_def)
  from range explicit show ?thesis by blast
qed

theorem assign_confidence_range_and_explicit_mention_witness:
  "mentioned_person
     \<lparr>description = ''Fix the critical login bug'',
      raw_text = ''We need to fix the critical login bug by tomorrow. Sakshi, please handle it.'',
      mentioned_person = Some ''Sakshi'', deadline_phrase = Some ''tomorrow'',
      priority_indicators = [''critical''], dependency_phrases = []\<rparr> = Some ''Sakshi''
   \<and> find_by_name
        (snd (add_member (TeamMember_init ''Sakshi'' ''Frontend Developer'' [''react'', ''login'']) []))
        ''Sakshi''
       = Some (TeamMember_init ''Sakshi'' ''Frontend Developer'' [''react'', ''login''])
   \<and> assign (\<lambda>xs. xs)
        \<lparr>description = ''Fix the critical login bug'',
         raw_text = ''We need to fix the critical login bug by tomorrow. Sakshi, please handle it.'',
         mentioned_person = Some ''Sakshi'', deadline_phrase = Some ''tomorrow'',
         priority_indicators = [''critical''], dependency_phrases = []\<rparr>
        (snd (add_member (TeamMember_init ''Sakshi'' ''Frontend Developer'' [''react'', ''login'']) []))
       = \<lparr>team_member = Some (TeamMember_init ''Sakshi'' ''Frontend Developer'' [''react'', ''login'']),
          reasoning = ''Explicitly mentioned in task: '' @ [CHR 0x27] @ ''Sakshi'' @ [CHR 0x27],
          confidence = 1\<rparr>"
proof -
  have f: "find_by_name
        (snd (add_member (TeamMember_init ''Sakshi'' ''Frontend Developer'' [''react'', ''login'']) []))
        ''Sakshi''
       = Some (TeamMember_init ''Sakshi'' ''Frontend Developer'' [''react'', ''login''])"
    by code_simp
  show ?thesis
    using f
      assign_confidence_range_and_explicit_mention [of "\<lambda>xs. xs"
        "\<lparr>description = ''Fix the critical login bug'',
         raw_text = ''We need to fix the critical login bug by tomorrow. Sakshi, please handle it.'',
         mentioned_person = Some ''Sakshi'', deadline_phrase = Some ''tomorrow'',
         priority_indicators = [''critical''], dependency_phrases = []\<rparr>"
        "snd (add_member (TeamMember_init ''Sakshi'' ''Frontend Developer'' [''react'', ''login'']) [])"]
    by simp
qed


subsection \<open>Topological order\<close>

lemma set_add_set: "set (set_add x xs) = insert x (set xs)"
  by (auto simp: set_add_def)

lemma set_add_distinct: "distinct xs \<Longrightarrow> distinct (set_add x xs)"
  by (auto simp: set_add_def)

lemma add_edges_ok:
  assumes "\<forall>d \<in> set deps. prerequisite_task_index d \<in> K \<and> dependent_task_index d \<in> K"
    and "dom (map_of graph) = K" and "dom (map_of in_degree) = K"
  shows "\<exists>graph' in_degree'.
           add_edges deps (graph, in_degree) = Inr (graph', in_degree')
           \<and> dom (map_of graph') = K \<and> dom (map_of in_degree') = K
           \<and> (\<forall>k \<in> K. set (the (map_of graph' k)) =
                  set (the (map_of graph k))
                  \<union> {dependent_task_index d | d. d \<in> set deps \<and> prerequisite_task_index d = k})
           \<and> ((\<forall>k \<in> K. distinct (the (map_of graph k)))
                \<longrightarrow> (\<forall>k \<in> K. distinct (the (map_of graph' k))))
           \<and> (\<forall>k \<in> K. the (map_of in_degree' k) =
                  the (map_of in_degree k)
                  + int (length (filter (\<lambda>d. dependent_task_index d = k) deps)))"
  using assms
proof (induction deps arbitrary: graph in_degree)
  case Nil
  then show ?case by simp
next
  case (Cons dep deps)
  let ?p = "prerequisite_task_index dep" and ?c = "dependent_task_index dep"
  from Cons.prems have pK: "?p \<in> K" and cK: "?c \<in> K" by auto
  from pK Cons.prems(2) obtain succs where succs: "map_of graph ?p = Some succs" by blast
  from cK Cons.prems(3) obtain d where d: "map_of in_degree ?c = Some d" by blast
  let ?g = "AList.update ?p (set_add ?c succs) graph"
  let ?i = "AList.update ?c (d + 1) in_degree"
  have step: "add_edges (dep # deps) (graph, in_degree) = add_edges deps (?g, ?i)"
    using succs d by simp
  have gdom: "dom (map_of ?g) = K" using pK Cons.prems(2) by (auto simp: update_conv')
  have idom: "dom (map_of ?i) = K" using cK Cons.prems(3) by (auto simp: update_conv')
  have rest: "\<forall>d \<in> set deps. prerequisite_task_index d \<in> K \<and> dependent_task_index d \<in> K"
    using Cons.prems(1) by simp
  from Cons.IH [OF rest gdom idom]
  obtain graph' in_degree' where
    r: "add_edges deps (?g, ?i) = Inr (graph', in_degree')"
    and d1: "dom (map_of graph') = K" and d2: "dom (map_of in_degree') = K"
    and s: "\<forall>k \<in> K. set (the (map_of graph' k)) =
                  set (the (map_of ?g k))
                  \<union> {dependent_task_index d | d. d \<in> set deps \<and> prerequisite_task_index d = k}"
    and di: "(\<forall>k \<in> K. distinct (the (map_of ?g k)))
                \<longrightarrow> (\<forall>k \<in> K. distinct (the (map_of graph' k)))"
    and c: "\<forall>k \<in> K. the (map_of in_degree' k) =
                  the (map_of ?i k)
                  + int (length (filter (\<lambda>d. dependent_task_index d = k) deps))"
    by blast
  have s': "\<forall>k \<in> K. set (the (map_of graph' k)) =
                  set (the (map_of graph k))
                  \<union> {dependent_task_index d | d. d \<in> set (dep # deps) \<and> prerequisite_task_index d = k}"
  proof
    fix k assume "k \<in> K"
    with s have e: "set (the (map_of graph' k)) =
                  set (the (map_of ?g k))
                  \<union> {dependent_task_index d | d. d \<in> set deps \<and> prerequisite_task_index d = k}"
      by blast
    show "set (the (map_of graph' k)) =
                  set (the (map_of graph k))
                  \<union> {dependent_task_index d | d. d \<in> set (dep # deps) \<and> prerequisite_task_index d = k}"
    proof (cases "k = ?p")
      case True
      then show ?thesis using e succs by (auto simp: update_conv' set_add_set)
    next
      case False
      then show ?thesis using e by (auto simp: update_conv')
    qed
  qed
  have di': "(\<forall>k \<in> K. distinct (the (map_of graph k)))
                \<longrightarrow> (\<forall>k \<in> K. distinct (the (map_of graph' k)))"
  proof
    assume a: "\<forall>k \<in> K. distinct (the (map_of graph k))"
    have "\<forall>k \<in> K. distinct (the (map_of ?g k))"
    proof
      fix k assume k: "k \<in> K"
      show "distinct (the (map_of ?g k))"
      proof (cases "k = ?p")
        case True
        then show ?thesis using a pK succs set_add_distinct [of succs ?c]
          by (auto simp: update_conv')
      next
        case False
        then show ?thesis using a k by (auto simp: update_conv')
      qed
    qed
    with di show "\<forall>k \<in> K. distinct (the (map_of graph' k))" by blast
  qed
  have c': "\<forall>k \<in> K. the (map_of in_degree' k) =
                  the (map_of in_degree k)
                  + int (length (filter (\<lambda>d. dependent_task_index d = k) (dep # deps)))"
  proof
    fix k assume "k \<in> K"
    with c have e: "the (map_of in_degree' k) =
                  the (map_of ?i k)
                  + int (length (filter (\<lambda>d. dependent_task_index d = k) deps))"
      by blast
    show "the (map_of in_degree' k) =
                  the (map_of in_degree k)
                  + int (length (filter (\<lambda>d. dependent_task_index d = k) (dep # deps)))"
      using e d by (cases "k = ?c") (auto simp: update_conv')
  qed
  have "add_edges (dep # deps) (graph, in_degree) = Inr (graph', in_degree')"
    using step r by simp
  with d1 d2 s' di' c' show ?case by blast
qed

lemma relax_ok:
  assumes "distinct nbs" and "set nbs \<subseteq> dom (map_of in_degree)"
  shows "\<exists>in_degree'.
           relax nbs (in_degree, queue) =
             Inr (in_degree', queue @ filter (\<lambda>w. the (map_of in_degree w) = 1) nbs)
           \<and> dom (map_of in_degree') = dom (map_of in_degree)
           \<and> (\<forall>v. the (map_of in_degree' v) =
                    (if v \<in> set nbs then the (map_of in_degree v) - 1
                     else the (map_of in_degree v)))"
  using assms
proof (induction nbs arbitrary: in_degree queue)
  case Nil
  then show ?case by simp
next
  case (Cons nb nbs)
  from Cons.prems obtain d where d: "map_of in_degree nb = Some d" by auto
  let ?i = "AList.update nb (d - 1) in_degree"
  let ?q = "if d - 1 = 0 then queue @ [nb] else queue"
  have step: "relax (nb # nbs) (in_degree, queue) = relax nbs (?i, ?q)"
    using d by simp
  have dm: "dom (map_of ?i) = dom (map_of in_degree)"
    using d by (auto simp: update_conv')
  have pre: "distinct nbs" "set nbs \<subseteq> dom (map_of ?i)"
    using Cons.prems dm by auto
  from Cons.IH [OF pre, of ?q]
  obtain in_degree' where
    r: "relax nbs (?i, ?q) = Inr (in_degree', ?q @ filter (\<lambda>w. the (map_of ?i w) = 1) nbs)"
    and d': "dom (map_of in_degree') = dom (map_of ?i)"
    and v: "\<forall>v. the (map_of in_degree' v) =
                    (if v \<in> set nbs then the (map_of ?i v) - 1 else the (map_of ?i v))"
    by blast
  have nbn: "nb \<notin> set nbs" using Cons.prems(1) by simp
  have same: "\<And>w. w \<in> set nbs \<Longrightarrow> the (map_of ?i w) = the (map_of in_degree w)"
    using nbn by (auto simp: update_conv')
  have f: "filter (\<lambda>w. the (map_of ?i w) = 1) nbs = filter (\<lambda>w. the (map_of in_degree w) = 1) nbs"
    using same by (auto intro: filter_cong)
  have q: "?q @ filter (\<lambda>w. the (map_of ?i w) = 1) nbs
           = queue @ filter (\<lambda>w. the (map_of in_degree w) = 1) (nb # nbs)"
    using d f by auto
  have v': "\<forall>v. the (map_of in_degree' v) =
                    (if v \<in> set (nb # nbs) then the (map_of in_degree v) - 1
                     else the (map_of in_degree v))"
  proof
    fix x
    show "the (map_of in_degree' x) =
                    (if x \<in> set (nb # nbs) then the (map_of in_degree x) - 1
                     else the (map_of in_degree x))"
      using v [rule_format, of x] nbn d same [of x]
      by (cases "x = nb") (auto simp: update_conv')
  qed
  have e: "relax (nb # nbs) (in_degree, queue) =
             Inr (in_degree', queue @ filter (\<lambda>w. the (map_of in_degree w) = 1) (nb # nbs))"
    using step r q by simp
  have "dom (map_of in_degree') = dom (map_of in_degree)" using d' dm by simp
  with e v' show ?case by blast
qed

lemma kahn_loop_inv:
  assumes "iter_ok set_iter" and "finite K"
    and "\<forall>k \<in> K. \<exists>xs. map_of graph k = Some xs \<and> distinct xs \<and> set xs \<subseteq> K"
    and "dom (map_of in_degree) = K"
    and "distinct (result @ queue)" and "set (result @ queue) \<subseteq> K"
    and "\<forall>v \<in> set (result @ queue). the (map_of in_degree v) = 0"
    and "\<forall>v \<in> K. int (card ({u \<in> K. v \<in> set (the (map_of graph u))} - set result))
                    \<le> the (map_of in_degree v)"
  shows "\<exists>res. kahn_loop set_iter graph (queue, result, in_degree) = Inr res
               \<and> distinct res \<and> set res \<subseteq> K"
  using assms
proof (induction set_iter graph "(queue, result, in_degree)"
       arbitrary: queue result in_degree rule: kahn_loop.induct)
  case (1 set_iter graph result in_degree)
  then show ?case by simp
next
  case (2 set_iter graph node queue result in_degree)
  let ?P = "\<lambda>v. {u \<in> K. v \<in> set (the (map_of graph u))}"
  from "2.prems"(6) have nK: "node \<in> K" by simp
  from "2.prems"(5) have nres: "node \<notin> set result" and nq: "node \<notin> set queue" by auto
  from nK "2.prems"(3) obtain succs where
    succs: "map_of graph node = Some succs" "distinct succs" "set succs \<subseteq> K" by blast
  let ?nbs = "set_iter succs"
  from "2.prems"(1) succs(2) have nbs: "distinct ?nbs" "set ?nbs = set succs"
    by (auto simp: iter_ok_def)
  have nbsdom: "set ?nbs \<subseteq> dom (map_of in_degree)"
    using nbs(2) succs(3) "2.prems"(4) by simp
  from relax_ok [OF nbs(1) nbsdom, of queue]
  obtain in_degree' where
    r: "relax ?nbs (in_degree, queue) =
          Inr (in_degree', queue @ filter (\<lambda>w. the (map_of in_degree w) = 1) ?nbs)"
    and d': "dom (map_of in_degree') = dom (map_of in_degree)"
    and v: "\<forall>v. the (map_of in_degree' v) =
                    (if v \<in> set ?nbs then the (map_of in_degree v) - 1
                     else the (map_of in_degree v))"
    by blast
  let ?q' = "queue @ filter (\<lambda>w. the (map_of in_degree w) = 1) ?nbs"
  have finP: "\<And>x. finite (?P x)" using "2.prems"(2) by simp
  have pos: "1 \<le> the (map_of in_degree w)" if w: "w \<in> set ?nbs" for w
  proof -
    from w nbs(2) succs(3) have wK: "w \<in> K" by auto
    have "node \<in> ?P w - set result" using w nbs(2) succs(1) nK nres by simp
    then have "?P w - set result \<noteq> {}" by blast
    then have "1 \<le> card (?P w - set result)"
      using finP [of w] by (simp add: Suc_le_eq card_gt_0_iff)
    with "2.prems"(8) wK show ?thesis by fastforce
  qed
  have old0: "\<And>x. x \<in> set (result @ node # queue) \<Longrightarrow> the (map_of in_degree x) = 0"
    using "2.prems"(7) by blast
  have notnb: "x \<notin> set ?nbs" if "x \<in> set (result @ node # queue)" for x
    using pos [of x] old0 [OF that] by auto
  have a5: "distinct ((result @ [node]) @ ?q')"
    using "2.prems"(5) nbs(1) notnb by auto
  have a6: "set ((result @ [node]) @ ?q') \<subseteq> K"
    using "2.prems"(6) nbs(2) succs(3) by auto
  have a7: "\<forall>x \<in> set ((result @ [node]) @ ?q'). the (map_of in_degree' x) = 0"
  proof
    fix x assume x: "x \<in> set ((result @ [node]) @ ?q')"
    show "the (map_of in_degree' x) = 0"
    proof (cases "x \<in> set (result @ node # queue)")
      case True
      then show ?thesis using notnb [OF True] old0 [OF True] v by simp
    next
      case False
      with x have "x \<in> set ?nbs" "the (map_of in_degree x) = 1" by auto
      then show ?thesis using v by simp
    qed
  qed
  have a8: "\<forall>x \<in> K. int (card (?P x - set (result @ [node]))) \<le> the (map_of in_degree' x)"
  proof
    fix x assume xK: "x \<in> K"
    from "2.prems"(8) xK have le: "int (card (?P x - set result)) \<le> the (map_of in_degree x)"
      by blast
    show "int (card (?P x - set (result @ [node]))) \<le> the (map_of in_degree' x)"
    proof (cases "x \<in> set ?nbs")
      case True
      then have "node \<in> ?P x - set result" using nbs(2) succs(1) nK nres by simp
      moreover have "?P x - set (result @ [node]) = (?P x - set result) - {node}" by auto
      ultimately have "card (?P x - set (result @ [node])) = card (?P x - set result) - 1"
        using finP [of x] by (simp add: card_Diff_singleton)
      moreover have "0 < card (?P x - set result)"
        using \<open>node \<in> ?P x - set result\<close> finP [of x]
        by (auto simp: card_gt_0_iff)
      ultimately show ?thesis using le v True by auto
    next
      case False
      have "card (?P x - set (result @ [node])) \<le> card (?P x - set result)"
        using finP [of x] by (intro card_mono) auto
      then show ?thesis using le v False by auto
    qed
  qed
  have dK: "dom (map_of in_degree') = K" using d' "2.prems"(4) by simp
  from "2.hyps" [OF succs(1) r refl "2.prems"(1) "2.prems"(2) "2.prems"(3) dK a5 a6 a7 a8]
  obtain res where "kahn_loop set_iter graph (?q', result @ [node], in_degree') = Inr res"
    "distinct res" "set res \<subseteq> K" by blast
  then show ?case using succs(1) r by auto
qed

lemma range_list_set: "set (range_list n) = {0..<n}"
  by (auto simp: range_list_def)

lemma range_list_distinct: "distinct (range_list n)"
  by (simp add: range_list_def)

lemma kahn_initial_card:
  assumes "\<forall>k \<in> K. set (the (map_of graph k)) =
             {dependent_task_index d | d. d \<in> set deps \<and> prerequisite_task_index d = k}"
  shows "card {u \<in> K. v \<in> set (the (map_of graph u))}
           \<le> length (filter (\<lambda>d. dependent_task_index d = v) deps)"
proof -
  let ?D = "set (filter (\<lambda>d. dependent_task_index d = v) deps)"
  have "{u \<in> K. v \<in> set (the (map_of graph u))} \<subseteq> prerequisite_task_index ` ?D"
    using assms by auto
  then have "card {u \<in> K. v \<in> set (the (map_of graph u))} \<le> card (prerequisite_task_index ` ?D)"
    by (intro card_mono) auto
  also have "\<dots> \<le> card ?D" by (intro card_image_le) simp
  also have "\<dots> \<le> length (filter (\<lambda>d. dependent_task_index d = v) deps)"
    by (rule card_length)
  finally show ?thesis .
qed

lemma get_dependency_order_kahn:
  assumes "iter_ok set_iter" and "indices_in_range num_tasks dependencies"
  shows "\<exists>graph in_degree res.
           add_edges dependencies
             (map (\<lambda>i. (i, [])) (range_list num_tasks),
              map (\<lambda>i. (i, 0)) (range_list num_tasks)) = Inr (graph, in_degree)
           \<and> kahn_loop set_iter graph
                (filter (\<lambda>i. map_of in_degree i = Some 0) (range_list num_tasks), [], in_degree)
               = Inr res
           \<and> distinct res \<and> set res \<subseteq> {0..<num_tasks}"
proof -
  let ?K = "{0..<num_tasks}"
  let ?g0 = "map (\<lambda>i. (i, [])) (range_list num_tasks) :: (int \<times> int list) list"
  let ?i0 = "map (\<lambda>i. (i, 0)) (range_list num_tasks) :: (int \<times> int) list"
  have inK: "\<forall>d \<in> set dependencies.
               prerequisite_task_index d \<in> ?K \<and> dependent_task_index d \<in> ?K"
    using assms(2) by (auto simp: indices_in_range_def list_all_iff)
  have g0dom: "dom (map_of ?g0) = ?K"
    by (simp add: dom_map_of_conv_image_fst image_image range_list_set)
  have i0dom: "dom (map_of ?i0) = ?K"
    by (simp add: dom_map_of_conv_image_fst image_image range_list_set)
  have g0val: "\<And>k. k \<in> ?K \<Longrightarrow> the (map_of ?g0 k) = []"
    by (simp add: map_of_map_restrict range_list_set)
  have i0val: "\<And>k. k \<in> ?K \<Longrightarrow> the (map_of ?i0 k) = 0"
    by (simp add: map_of_map_restrict range_list_set)
  from add_edges_ok [OF inK g0dom i0dom]
  obtain graph in_degree where
    ae: "add_edges dependencies (?g0, ?i0) = Inr (graph, in_degree)"
    and gdom: "dom (map_of graph) = ?K" and idom: "dom (map_of in_degree) = ?K"
    and gset: "\<forall>k \<in> ?K. set (the (map_of graph k)) =
                  set (the (map_of ?g0 k))
                  \<union> {dependent_task_index d | d. d \<in> set dependencies \<and> prerequisite_task_index d = k}"
    and gdist: "(\<forall>k \<in> ?K. distinct (the (map_of ?g0 k)))
                \<longrightarrow> (\<forall>k \<in> ?K. distinct (the (map_of graph k)))"
    and ideg: "\<forall>k \<in> ?K. the (map_of in_degree k) =
                  the (map_of ?i0 k)
                  + int (length (filter (\<lambda>d. dependent_task_index d = k) dependencies))"
    by blast
  have gset': "\<forall>k \<in> ?K. set (the (map_of graph k)) =
                 {dependent_task_index d | d. d \<in> set dependencies \<and> prerequisite_task_index d = k}"
    using gset g0val by simp
  have gdist': "\<forall>k \<in> ?K. distinct (the (map_of graph k))"
    using gdist g0val by simp
  have ideg': "\<forall>k \<in> ?K. the (map_of in_degree k) =
                  int (length (filter (\<lambda>d. dependent_task_index d = k) dependencies))"
    using ideg i0val by simp
  have a3: "\<forall>k \<in> ?K. \<exists>xs. map_of graph k = Some xs \<and> distinct xs \<and> set xs \<subseteq> ?K"
  proof
    fix k assume k: "k \<in> ?K"
    with gdom obtain xs where xs: "map_of graph k = Some xs" by blast
    have "distinct xs" using gdist' k xs by fastforce
    moreover have "set xs \<subseteq> ?K" using gset' k xs inK by fastforce
    ultimately show "\<exists>xs. map_of graph k = Some xs \<and> distinct xs \<and> set xs \<subseteq> ?K"
      using xs by blast
  qed
  let ?q0 = "filter (\<lambda>i. map_of in_degree i = Some 0) (range_list num_tasks)"
  have a5: "distinct ([] @ ?q0)" by (simp add: range_list_distinct)
  have a6: "set ([] @ ?q0) \<subseteq> ?K" by (auto simp: range_list_set)
  have a7: "\<forall>v \<in> set ([] @ ?q0). the (map_of in_degree v) = 0" by simp
  have a8: "\<forall>v \<in> ?K. int (card ({u \<in> ?K. v \<in> set (the (map_of graph u))} - set []))
                    \<le> the (map_of in_degree v)"
  proof
    fix v assume v: "v \<in> ?K"
    have "card {u \<in> ?K. v \<in> set (the (map_of graph u))}
            \<le> length (filter (\<lambda>d. dependent_task_index d = v) dependencies)"
      using gset' by (rule kahn_initial_card)
    then show "int (card ({u \<in> ?K. v \<in> set (the (map_of graph u))} - set []))
                    \<le> the (map_of in_degree v)"
      using ideg' v by simp
  qed
  have fin: "finite ?K" by simp
  from kahn_loop_inv [OF assms(1) fin a3 idom a5 a6 a7 a8]
  obtain res where "kahn_loop set_iter graph (?q0, [], in_degree) = Inr res"
    "distinct res" "set res \<subseteq> ?K" by blast
  with ae show ?thesis by blast
qed

text \<open>
  Claim C10. For every \<open>num_tasks\<close> and every dependency list whose indices lie in
  \<open>range(num_tasks)\<close>, cycles and repeated pairs included, and for every order in which
  the neighbour sets are iterated, \<open>get_dependency_order\<close> returns (it raises nothing and
  its loop ends) a list in which every index of \<open>range(num_tasks)\<close> occurs exactly once.
\<close>

theorem get_dependency_order_permutation:
  assumes "iter_ok set_iter" and "indices_in_range num_tasks dependencies"
  shows "\<exists>order. get_dependency_order set_iter num_tasks dependencies = Inr order
                 \<and> distinct order \<and> set order = {0..<num_tasks}
                 \<and> int (length order) = max 0 num_tasks"
proof -
  let ?K = "{0..<num_tasks}"
  from get_dependency_order_kahn [OF assms]
  obtain graph in_degree res where
    ae: "add_edges dependencies
             (map (\<lambda>i. (i, [])) (range_list num_tasks),
              map (\<lambda>i. (i, 0)) (range_list num_tasks)) = Inr (graph, in_degree)"
    and kl: "kahn_loop set_iter graph
                (filter (\<lambda>i. map_of in_degree i = Some 0) (range_list num_tasks), [], in_degree)
               = Inr res"
    and dres: "distinct res" and sres: "set res \<subseteq> ?K"
    by blast
  let ?order = "if int (length res) \<noteq> num_tasks
                then res @ filter (\<lambda>i. i \<notin> set res) (range_list num_tasks) else res"
  have go: "get_dependency_order set_iter num_tasks dependencies = Inr ?order"
    using ae kl by (simp add: get_dependency_order_def)
  have cardK: "card ?K = nat num_tasks" by simp
  have full: "set res = ?K" if "int (length res) = num_tasks"
  proof -
    have "card (set res) = length res" using dres by (rule distinct_card)
    then have "card (set res) = card ?K" using that cardK by simp
    with sres show ?thesis by (intro card_subset_eq) auto
  qed
  have d: "distinct ?order" using dres by (auto simp: range_list_distinct)
  have s: "set ?order = ?K" using sres full by (auto simp: range_list_set)
  have "length ?order = card ?K" using d s distinct_card [of ?order] by simp
  then have l: "int (length ?order) = max 0 num_tasks" using cardK by simp
  from go d s l show ?thesis by blast
qed

theorem get_dependency_order_permutation_witness:
  "iter_ok (\<lambda>xs :: int list. xs)
   \<and> indices_in_range 3
        [\<lparr>dependent_task_index = 0, prerequisite_task_index = 1, dependency_phrase = ''task b''\<rparr>,
         \<lparr>dependent_task_index = 1, prerequisite_task_index = 2, dependency_phrase = ''task c''\<rparr>,
         \<lparr>dependent_task_index = 2, prerequisite_task_index = 0, dependency_phrase = ''task a''\<rparr>]
   \<and> (\<exists>order.
         get_dependency_order (\<lambda>xs. xs) 3
           [\<lparr>dependent_task_index = 0, prerequisite_task_index = 1, dependency_phrase = ''task b''\<rparr>,
            \<lparr>dependent_task_index = 1, prerequisite_task_index = 2, dependency_phrase = ''task c''\<rparr>,
            \<lparr>dependent_task_index = 2, prerequisite_task_index = 0, dependency_phrase = ''task a''\<rparr>]
           = Inr order
         \<and> distinct order \<and> set order = {0..<3} \<and> int (length order) = max 0 3)"
proof -
  have a: "iter_ok (\<lambda>xs :: int list. xs)" by (simp add: iter_ok_def)
  have b: "indices_in_range 3
        [\<lparr>dependent_task_index = 0, prerequisite_task_index = 1, dependency_phrase = ''task b''\<rparr>,
         \<lparr>dependent_task_index = 1, prerequisite_task_index = 2, dependency_phrase = ''task c''\<rparr>,
         \<lparr>dependent_task_index = 2, prerequisite_task_index = 0, dependency_phrase = ''task a''\<rparr>]"
    by (simp add: indices_in_range_def)
  from a b get_dependency_order_permutation [OF a b] show ?thesis by blast
qed

text \<open>
  Claim C4 does not hold of the code as it stands. \<open>get_dependency_order\<close> keeps the
  neighbours of a task in a set but counts every list entry in \<open>in_degree\<close>, so a
  (prerequisite, dependent) pair that occurs twice leaves the dependent's count above zero
  for ever: the task is never enqueued and ends among the "remaining" tasks in index order,
  although the comment there says that this only happens on a cycle. Below, task 1 depends
  on task 2 and task 2 (twice) on task 0: the edges are acyclic, and the returned order puts
  task 1 before its prerequisite 2. With the repeated pair listed once the order is right.
\<close>

theorem get_dependency_order_repeated_pair:
  "get_dependency_order (\<lambda>xs. xs) 3
     [\<lparr>dependent_task_index = 1, prerequisite_task_index = 2, dependency_phrase = ''payment''\<rparr>,
      \<lparr>dependent_task_index = 2, prerequisite_task_index = 0, dependency_phrase = ''login bug fix''\<rparr>,
      \<lparr>dependent_task_index = 2, prerequisite_task_index = 0, dependency_phrase = ''the login bug fix''\<rparr>]
     = Inr [0, 1, 2]
   \<and> get_dependency_order (\<lambda>xs. xs) 3
     [\<lparr>dependent_task_index = 1, prerequisite_task_index = 2, dependency_phrase = ''payment''\<rparr>,
      \<lparr>dependent_task_index = 2, prerequisite_task_index = 0, dependency_phrase = ''login bug fix''\<rparr>]
     = Inr [0, 2, 1]"
  by code_simp


subsection \<open>Cycle detection\<close>



















lemma card_nodes_le:
  "card (Domain (dependency_edges deps) \<union> Range (dependency_edges deps)) \<le> 2 * length deps"
proof -
  let ?E = "dependency_edges deps"
  have f: "finite ?E" by (simp add: dependency_edges_def)
  have "card ?E \<le> length deps"
    unfolding dependency_edges_def using card_length [of "map (\<lambda>d. (dependent_task_index d, prerequisite_task_index d)) deps"]
    by simp
  moreover have "card (Domain ?E) \<le> card ?E"
    using f by (simp add: Domain_fst card_image_le)
  moreover have "card (Range ?E) \<le> card ?E"
    using f by (simp add: Range_snd card_image_le)
  moreover have "card (Domain ?E \<union> Range ?E) \<le> card (Domain ?E) + card (Range ?E)"
    by (rule card_Un_le)
  ultimately show ?thesis by linarith
qed













subsection \<open>Output serialization\<close>

definition blank_to_none :: "string option \<Rightarrow> string option" where
  "blank_to_none x = (if x = Some [] then None else x)"

definition without_blanks :: "TaskOutput \<Rightarrow> TaskOutput" where
  \<comment> \<open>The task with \<open>None\<close> in place of each optional field that holds the empty string.\<close>
  "without_blanks t =
     t\<lparr>assigned_to := blank_to_none (assigned_to t),
       deadline_out := blank_to_none (deadline_out t),
       dependencies_out := blank_to_none (dependencies_out t),
       reasoning_out := blank_to_none (reasoning_out t)\<rparr>"

fun csv_unquote :: "bool \<Rightarrow> string \<Rightarrow> string \<Rightarrow> string \<times> string" where
  \<comment> \<open>Reads a quoted field after its opening quote; the flag says that a quote was just
      read, which either ends the field or is the first of a doubled quote.\<close>
  "csv_unquote False acc [] = (rev acc, [])"
| "csv_unquote False acc (c # cs) =
     (if c = CHR 0x22 then csv_unquote True acc cs else csv_unquote False (c # acc) cs)"
| "csv_unquote True acc [] = (rev acc, [])"
| "csv_unquote True acc (c # cs) =
     (if c = CHR 0x22 then csv_unquote False (CHR 0x22 # acc) cs else (rev acc, c # cs))"

fun csv_bare :: "string \<Rightarrow> string \<Rightarrow> string \<times> string" where
  "csv_bare acc [] = (rev acc, [])"
| "csv_bare acc (c # cs) = (if csv_special c then (rev acc, c # cs) else csv_bare (c # acc) cs)"

definition csv_read_field :: "string \<Rightarrow> string \<times> string" where
  \<comment> \<open>Reads one field off the front of a CSV text: the field and the text after it.\<close>
  "csv_read_field s =
     (case s of
        [] \<Rightarrow> ([], [])
      | c # cs \<Rightarrow> if c = CHR 0x22 then csv_unquote False [] cs else csv_bare [] s)"

lemma from_dict_to_dict: "from_dict (to_dict t) = Inr t"
  by (cases t) (simp add: from_dict_def to_dict_def bind_err_def get_int_def get_str_def get_opt_str_def split: option.splits)

lemma from_dicts_to_dict: "from_dicts (map to_dict ts) = Inr ts"
  by (induction ts) (simp_all add: from_dict_to_dict bind_err_def)

lemma str_nat_digits: "digit \<in> set (str_nat n) \<Longrightarrow> 48 \<le> (of_char digit :: nat) \<and> (of_char digit :: nat) \<le> 57"
proof (induction n rule: str_nat.induct)
  case (1 n)
  show ?case
  proof (cases "n < 10")
    case True
    with "1.prems" have "digit = char_of (48 + n)" by (simp add: str_nat.simps [of n])
    then show ?thesis using True by simp
  next
    case False
    with "1.prems" have "digit \<in> set (str_nat (n div 10)) \<or> digit = char_of (48 + n mod 10)"
      by (auto simp: str_nat.simps [of n])
    then show ?thesis
    proof
      assume "digit \<in> set (str_nat (n div 10))"
      with "1.IH" False show ?thesis by simp
    next
      assume d: "digit = char_of (48 + n mod 10)"
      have "n mod 10 < 10" by simp
      then have "(48 + n mod 10) mod 256 = 48 + n mod 10" by simp
      with d show ?thesis by simp
    qed
  qed
qed

lemma digits_value_str_nat: "digits_value (str_nat n) = n"
proof (induction n rule: str_nat.induct)
  case (1 n)
  show ?case
  proof (cases "n < 10")
    case True
    then show ?thesis by (simp add: str_nat.simps [of n] digits_value_def)
  next
    case False
    have "n mod 10 < 10" by simp
    then have m: "(48 + n mod 10) mod 256 = 48 + n mod 10" by simp
    have "digits_value (str_nat n) = 10 * digits_value (str_nat (n div 10)) + n mod 10"
      using False m by (simp add: str_nat.simps [of n] digits_value_def)
    with "1.IH" False show ?thesis by simp
  qed
qed

lemma str_nat_inj: "str_nat m = str_nat n \<Longrightarrow> m = n"
  using digits_value_str_nat by metis

lemma str_nat_no_minus: "str_nat n \<noteq> CHR ''-'' # s"
proof
  assume "str_nat n = CHR ''-'' # s"
  then have "CHR ''-'' \<in> set (str_nat n)" by simp
  from str_nat_digits [OF this] show False by simp
qed

lemma str_int_inj: "str_int i = str_int j \<Longrightarrow> i = j"
proof (cases "i < 0"; cases "j < 0")
  assume "str_int i = str_int j" "i < 0" "j < 0"
  then have "nat (- i) = nat (- j)" by (auto simp: str_int_def dest: str_nat_inj)
  with \<open>i < 0\<close> \<open>j < 0\<close> show ?thesis by simp
next
  assume "str_int i = str_int j" "i < 0" "\<not> j < 0"
  then show ?thesis using str_nat_no_minus [of "nat j" "str_nat (nat (- i))"]
    by (simp add: str_int_def)
next
  assume "str_int i = str_int j" "\<not> i < 0" "j < 0"
  then show ?thesis using str_nat_no_minus [of "nat i" "str_nat (nat (- j))"]
    by (simp add: str_int_def)
next
  assume "str_int i = str_int j" "\<not> i < 0" "\<not> j < 0"
  then have "nat i = nat j" by (auto simp: str_int_def dest: str_nat_inj)
  with \<open>\<not> i < 0\<close> \<open>\<not> j < 0\<close> show ?thesis by simp
qed

lemma or_empty_eq_iff: "or_empty x = or_empty y \<longleftrightarrow> blank_to_none x = blank_to_none y"
  by (cases x; cases y) (auto simp: or_empty_def blank_to_none_def)

lemma csv_fields_eq_iff: "csv_fields t = csv_fields t' \<longleftrightarrow> without_blanks t = without_blanks t'"
  by (cases t; cases t') (auto simp: csv_fields_def without_blanks_def or_empty_eq_iff dest: str_int_inj)

lemma csv_unquote_escape:
  "rest = [] \<or> hd rest \<noteq> CHR 0x22 \<Longrightarrow>
   csv_unquote False acc (csv_escape f @ CHR 0x22 # rest) = (rev acc @ f, rest)"
proof (induction f arbitrary: acc)
  case Nil
  then show ?case by (cases rest) auto
next
  case (Cons c cs)
  show ?case using Cons.IH [OF Cons.prems] by simp
qed

lemma csv_bare_plain:
  "\<not> list_ex csv_special f \<Longrightarrow> rest = [] \<or> csv_special (hd rest) \<Longrightarrow>
   csv_bare acc (f @ rest) = (rev acc @ f, rest)"
proof (induction f arbitrary: acc)
  case Nil
  then show ?case by (cases rest) auto
next
  case (Cons c cs)
  then show ?case by simp
qed

lemma csv_read_field_csv_field:
  assumes "rest \<noteq> []" and "csv_special (hd rest)" and "hd rest \<noteq> CHR 0x22"
  shows "csv_read_field (csv_field f @ rest) = (f, rest)"
proof (cases "list_ex csv_special f")
  case True
  have "csv_unquote False [] (csv_escape f @ CHR 0x22 # rest) = (rev [] @ f, rest)"
    using assms(3) by (intro csv_unquote_escape) simp
  with True show ?thesis by (simp add: csv_read_field_def csv_field_def)
next
  case False
  have b: "csv_bare [] (f @ rest) = (rev [] @ f, rest)"
    using False assms(2) by (intro csv_bare_plain) simp_all
  have "f @ rest \<noteq> []" using assms(1) by simp
  moreover have "hd (f @ rest) \<noteq> CHR 0x22"
  proof (cases f)
    case Nil
    then show ?thesis using assms(3) by simp
  next
    case (Cons c cs)
    then have "\<not> csv_special c" using False by simp
    then show ?thesis using Cons by (auto simp: csv_special_def)
  qed
  ultimately show ?thesis using False b
    by (cases "f @ rest") (auto simp: csv_read_field_def csv_field_def)
qed

lemma csv_field_inj:
  assumes "csv_field f @ rest = csv_field f' @ rest'"
    and "rest \<noteq> []" "csv_special (hd rest)" "hd rest \<noteq> CHR 0x22"
    and "rest' \<noteq> []" "csv_special (hd rest')" "hd rest' \<noteq> CHR 0x22"
  shows "f = f' \<and> rest = rest'"
proof -
  have "(f, rest) = csv_read_field (csv_field f @ rest)"
    by (rule csv_read_field_csv_field [OF assms(2,3,4), symmetric])
  also have "\<dots> = csv_read_field (csv_field f' @ rest')"
    by (simp only: assms(1))
  also have "\<dots> = (f', rest')"
    by (rule csv_read_field_csv_field [OF assms(5,6,7)])
  finally have "(f, rest) = (f', rest')" .
  then show ?thesis by (simp only: prod.inject)
qed

lemma csv_row_inj:
  "length cells = length cells' \<Longrightarrow> cells \<noteq> [] \<Longrightarrow>
   csv_row cells @ rest = csv_row cells' @ rest' \<Longrightarrow> cells = cells' \<and> rest = rest'"
proof (induction cells arbitrary: cells')
  case Nil
  then show ?case by simp
next
  case (Cons f fs)
  from Cons.prems(1) obtain f' fs' where c': "cells' = f' # fs'" and len: "length fs = length fs'"
    by (cases cells') auto
  show ?case
  proof (cases fs)
    case Nil
    with len have fs': "fs' = []" by simp
    have "csv_field f @ (CHR 0x0D # CHR 0x0A # rest) = csv_field f' @ (CHR 0x0D # CHR 0x0A # rest')"
      using Cons.prems(3) c' Nil fs' by (simp add: csv_row_def)
    then have "f = f' \<and> CHR 0x0D # CHR 0x0A # rest = CHR 0x0D # CHR 0x0A # rest'"
      by (rule csv_field_inj) (simp_all add: csv_special_def)
    then show ?thesis using c' Nil fs' by simp
  next
    case (Cons g gs)
    with len obtain g' gs' where fs': "fs' = g' # gs'" by (cases fs') auto
    have "csv_field f @ (CHR '','' # csv_row fs @ rest) = csv_field f' @ (CHR '','' # csv_row fs' @ rest')"
      using Cons.prems(3) c' Cons fs' by (simp add: csv_row_def)
    then have e: "f = f' \<and> CHR '','' # csv_row fs @ rest = CHR '','' # csv_row fs' @ rest'"
      by (rule csv_field_inj) (simp_all add: csv_special_def)
    then have "csv_row fs @ rest = csv_row fs' @ rest'" by simp
    from Cons.IH [OF len _ this] Cons have "fs = fs' \<and> rest = rest'" by simp
    with e c' show ?thesis by simp
  qed
qed

lemma csv_row_not_Nil: "csv_row cells \<noteq> []"
  by (simp add: csv_row_def)

lemma csv_text_inj:
  assumes "\<forall>r \<in> set rows. length r = n" and "\<forall>r \<in> set rows'. length r = n" and "0 < n"
    and "concat (map csv_row rows) = concat (map csv_row rows')"
  shows "rows = rows'"
  using assms
proof (induction rows arbitrary: rows')
  case Nil
  then show ?case using csv_row_not_Nil by (cases rows') auto
next
  case (Cons r rs)
  show ?case
  proof (cases rows')
    case Nil
    with Cons.prems(4) show ?thesis using csv_row_not_Nil [of r] by simp
  next
    case (Cons r' rs')
    have len: "length r = length r'" and ne: "r \<noteq> []"
      using Cons.prems(1,2,3) Cons by auto
    have "csv_row r @ concat (map csv_row rs) = csv_row r' @ concat (map csv_row rs')"
      using Cons.prems(4) Cons by simp
    from csv_row_inj [OF len ne this]
    have e: "r = r'" "concat (map csv_row rs) = concat (map csv_row rs')" by simp_all
    have "rs = rs'"
      using Cons.IH [of rs'] Cons.prems(1,2,3) Cons e(2) by simp
    with e(1) Cons show ?thesis by simp
  qed
qed

lemma serialize_to_csv_eq_iff:
  "serialize_to_csv tasks = serialize_to_csv tasks' \<longleftrightarrow>
   map without_blanks tasks = map without_blanks tasks'"
proof -
  let ?rows = "CSV_HEADER # map csv_fields tasks" and ?rows' = "CSV_HEADER # map csv_fields tasks'"
  have l: "\<forall>r \<in> set ?rows. length r = 7" "\<forall>r \<in> set ?rows'. length r = 7"
    by (auto simp: CSV_HEADER_def csv_fields_def)
  have "serialize_to_csv tasks = serialize_to_csv tasks' \<longleftrightarrow> ?rows = ?rows'"
  proof
    assume "serialize_to_csv tasks = serialize_to_csv tasks'"
    then have "concat (map csv_row ?rows) = concat (map csv_row ?rows')"
      by (simp only: serialize_to_csv_def)
    from csv_text_inj [OF l _ this] show "?rows = ?rows'" by simp
  next
    assume "?rows = ?rows'"
    then show "serialize_to_csv tasks = serialize_to_csv tasks'"
      by (simp only: serialize_to_csv_def)
  qed
  also have "\<dots> \<longleftrightarrow> map csv_fields tasks = map csv_fields tasks'" by simp
  also have "\<dots> \<longleftrightarrow> map without_blanks tasks = map without_blanks tasks'"
  proof (induction tasks arbitrary: tasks')
    case Nil
    then show ?case by auto
  next
    case (Cons t ts)
    then show ?case by (cases tasks') (auto simp: csv_fields_eq_iff)
  qed
  finally show ?thesis .
qed

text \<open>
  Claim C7, as stated, fails for CSV: \<open>serialize_to_csv\<close> writes \<open>task.dependencies or ''\<close>
  (and likewise the other optional fields), so an absent field and an empty one give the
  same cell. The two task lists below differ and have the same CSV text; no parser can
  give back both.
\<close>

theorem serialize_to_csv_counterexample:
  "[\<lparr>task_number = 1, description_out = ''Fix the login bug'', assigned_to = Some ''Sakshi'',
      deadline_out = Some ''tomorrow'', priority_out = ''Critical'', dependencies_out = None,
      reasoning_out = None\<rparr>]
   \<noteq> [\<lparr>task_number = 1, description_out = ''Fix the login bug'', assigned_to = Some ''Sakshi'',
      deadline_out = Some ''tomorrow'', priority_out = ''Critical'', dependencies_out = Some [],
      reasoning_out = None\<rparr>]
   \<and> serialize_to_csv
       [\<lparr>task_number = 1, description_out = ''Fix the login bug'', assigned_to = Some ''Sakshi'',
         deadline_out = Some ''tomorrow'', priority_out = ''Critical'', dependencies_out = None,
         reasoning_out = None\<rparr>]
     = serialize_to_csv
       [\<lparr>task_number = 1, description_out = ''Fix the login bug'', assigned_to = Some ''Sakshi'',
         deadline_out = Some ''tomorrow'', priority_out = ''Critical'', dependencies_out = Some [],
         reasoning_out = None\<rparr>]"
  by (simp add: serialize_to_csv_def csv_fields_def or_empty_def)

text \<open>
  Claim C7, amended. For every list of \<open>TaskOutput\<close> records, \<open>deserialize\<close> applied to the
  JSON text of \<open>serialize\<close> gives back the same list, field for field and in order (given
  that \<open>json.loads\<close> gives back what \<open>json.dumps\<close> was given). The CSV text of
  \<open>serialize_to_csv\<close> determines the list up to the difference between an absent and an
  empty optional field, and no further: two lists have the same CSV text if and only if
  they are equal once every empty \<open>assigned_to\<close>, \<open>deadline\<close>, \<open>dependencies\<close> and
  \<open>reasoning\<close> is read as absent.
\<close>

theorem serialize_round_trip:
  assumes "loads (dumps (JArr (map to_dict tasks))) = Inr (JArr (map to_dict tasks))"
  shows "deserialize loads (serialize dumps tasks) = Inr tasks
         \<and> (serialize_to_csv tasks = serialize_to_csv tasks' \<longleftrightarrow>
              map without_blanks tasks = map without_blanks tasks')"
proof -
  have "deserialize loads (serialize dumps tasks) = Inr tasks"
    using assms by (simp add: deserialize_def serialize_def bind_err_def from_dicts_to_dict)
  then show ?thesis using serialize_to_csv_eq_iff by blast
qed

theorem serialize_round_trip_witness:
  "Inr ((\<lambda>v. v) (JArr (map to_dict
      [\<lparr>task_number = 1, description_out = ''Fix the login bug'', assigned_to = Some ''Sakshi'',
        deadline_out = Some ''tomorrow'', priority_out = ''Critical'', dependencies_out = None,
        reasoning_out = None\<rparr>])))
    = (Inr (JArr (map to_dict
      [\<lparr>task_number = 1, description_out = ''Fix the login bug'', assigned_to = Some ''Sakshi'',
        deadline_out = Some ''tomorrow'', priority_out = ''Critical'', dependencies_out = None,
        reasoning_out = None\<rparr>])) :: py_error + json)
   \<and> deserialize Inr (serialize (\<lambda>v. v)
       [\<lparr>task_number = 1, description_out = ''Fix the login bug'', assigned_to = Some ''Sakshi'',
         deadline_out = Some ''tomorrow'', priority_out = ''Critical'', dependencies_out = None,
         reasoning_out = None\<rparr>])
     = Inr [\<lparr>task_number = 1, description_out = ''Fix the login bug'', assigned_to = Some ''Sakshi'',
         deadline_out = Some ''tomorrow'', priority_out = ''Critical'', dependencies_out = None,
         reasoning_out = None\<rparr>]"
proof -
  let ?tasks = "[\<lparr>task_number = 1, description_out = ''Fix the login bug'', assigned_to = Some ''Sakshi'',
        deadline_out = Some ''tomorrow'', priority_out = ''Critical'', dependencies_out = None,
        reasoning_out = None\<rparr>]"
  have h: "(Inr :: json \<Rightarrow> py_error + json) ((\<lambda>v. v) (JArr (map to_dict ?tasks)))
           = Inr (JArr (map to_dict ?tasks))" by simp
  from serialize_round_trip [of Inr "\<lambda>v. v" ?tasks, OF h] h show ?thesis by blast
qed


end
